theory Spec2Isabelle
  imports Main
begin

section \<open>Data model\<close>

text \<open>
  The record \<open>TextChunk\<close> of \<open>text_extractor.cpp\<close> (lines 66-74). The fields
  \<open>text\<close> and \<open>context\<close> of the source are named \<open>chunk_text\<close> and
  \<open>chunk_context\<close> here, because both words are reserved in Isabelle. The source's
  \<open>size_t\<close> fields are natural numbers: a line counter, a column and a string length
  never reach \<open>2^64\<close>, and the one addition that could wrap,
  \<open>start + max_chunk_size\<close> in the splitter, is only evaluated when
  \<open>start < text.length()\<close> and \<open>max_chunk_size < text.length()\<close>, so that the sum
  is below twice the largest size a \<open>std::string\<close> can have.
\<close>

record TextChunk =
  chunk_text :: string
  file_path :: string
  line_number :: nat
  column_start :: nat
  column_end :: nat
  chunk_context :: string
  original_text :: string

text \<open>
  \<open>ExtractionResult\<close> (lines 76-81). The field \<open>processing_time\<close> is a wall-clock
  measurement in floating point and is left out.
\<close>

record ExtractionResult =
  chunks :: "TextChunk list"
  total_files_processed :: nat
  total_texts_found :: nat

text \<open>Characters that the source writes with an escape.\<close>

definition backslash :: char where "backslash = CHR 0x5C"

definition dquote :: char where "dquote = CHR 0x22"

definition squote :: char where "squote = CHR 0x27"

definition LF :: char where "LF = CHR 0x0A"

definition TAB :: char where "TAB = CHR 0x09"

definition CR :: char where "CR = CHR 0x0D"

text \<open>
  \<open>std::isspace\<close> in the C locale, on an \<open>unsigned char\<close>: space, and the five control
  characters from horizontal tab (9) to carriage return (13).
\<close>

definition isspace :: "char \<Rightarrow> bool" where
  "isspace ch = (ch = CHR '' '' \<or> ch = TAB \<or> ch = LF \<or> ch = CHR 0x0B \<or> ch = CHR 0x0C \<or> ch = CR)"

section \<open>Regular expressions\<close>

text \<open>
  The pattern registry is a list of \<open>std::regex\<close> values in the default (ECMAScript)
  grammar. The fragment of that grammar the registry uses is modelled here: single
  characters, the dot, bracket expressions, the whitespace class, sequencing, the greedy
  quantifiers star and plus, and numbered capture groups.
\<close>

datatype char_class =
    Lit char
  | Dot
  | Neg "char list"
  | Pos "char list"
  | Space

datatype regex =
    Eps
  | Atom char_class
  | Seq regex regex
  | Star regex
  | Plus regex
  | Group nat regex

fun class_matches :: "char_class \<Rightarrow> char \<Rightarrow> bool" where
  "class_matches (Lit c) x = (x = c)"
| "class_matches Dot x = (x \<noteq> LF \<and> x \<noteq> CR)"
| "class_matches (Neg cs) x = (x \<notin> set cs)"
| "class_matches (Pos cs) x = (x \<in> set cs)"
| "class_matches Space x = isspace x"

text \<open>
  A matcher state is the current position in the subject string and the capture groups
  closed so far. \<open>ends r s st\<close> lists the states in which a match of \<open>r\<close> started in
  \<open>st\<close> can end, in the order in which the backtracking matcher of ECMAScript tries
  them: a greedy quantifier tries one more iteration before it tries to stop, and an
  iteration that consumes nothing is not taken. The first element of the list is the match
  the library reports. The counter of \<open>star_ends\<close> bounds the number of iterations by the
  length of the subject, which is never reached because every iteration consumes a
  character.
\<close>

type_synonym mstate = "nat \<times> (nat \<rightharpoonup> nat \<times> nat)"

fun star_ends :: "nat \<Rightarrow> (mstate \<Rightarrow> mstate list) \<Rightarrow> mstate \<Rightarrow> mstate list" where
  "star_ends 0 step st = [st]"
| "star_ends (Suc n) step st =
     concat (map (star_ends n step) (filter (\<lambda>st'. fst st < fst st') (step st))) @ [st]"

fun ends :: "regex \<Rightarrow> string \<Rightarrow> mstate \<Rightarrow> mstate list" where
  "ends Eps s st = [st]"
| "ends (Atom a) s st =
     (if fst st < length s \<and> class_matches a (s ! fst st) then [(Suc (fst st), snd st)] else [])"
| "ends (Seq r1 r2) s st = concat (map (ends r2 s) (ends r1 s st))"
| "ends (Star r) s st = star_ends (length s) (ends r s) st"
| "ends (Plus r) s st = concat (map (star_ends (length s) (ends r s)) (ends r s st))"
| "ends (Group n r) s st = map (\<lambda>st'. (fst st', (snd st')(n \<mapsto> (fst st, fst st')))) (ends r s st)"

text \<open>
  \<open>std::smatch\<close>: the span of the whole match and the spans of the capture groups that
  took part in it.
\<close>

record smatch =
  match_first :: nat
  match_second :: nat
  submatches :: "nat \<rightharpoonup> nat \<times> nat"

definition make_match :: "nat \<Rightarrow> mstate \<Rightarrow> smatch" where
  "make_match p st = \<lparr>match_first = p, match_second = fst st, submatches = snd st\<rparr>"

text \<open>
  \<open>match.str()\<close>, \<open>match[n].str()\<close>, \<open>match.position(n)\<close> and \<open>match.length(n)\<close>.
  A group that took no part in the match has the empty string, length 0 and, in the GNU
  library, the end of the subject as its position.
\<close>

definition match_str :: "string \<Rightarrow> smatch \<Rightarrow> string" where
  "match_str s m = take (match_second m - match_first m) (drop (match_first m) s)"

definition sub_str :: "string \<Rightarrow> smatch \<Rightarrow> nat \<Rightarrow> string" where
  "sub_str s m n = (case submatches m n of None \<Rightarrow> [] | Some (a, b) \<Rightarrow> take (b - a) (drop a s))"

definition position :: "string \<Rightarrow> smatch \<Rightarrow> nat \<Rightarrow> nat" where
  "position s m n = (case submatches m n of None \<Rightarrow> length s | Some (a, b) \<Rightarrow> a)"

definition match_length :: "smatch \<Rightarrow> nat \<Rightarrow> nat" where
  "match_length m n = (case submatches m n of None \<Rightarrow> 0 | Some (a, b) \<Rightarrow> b - a)"

text \<open>
  \<open>std::regex_search\<close> from position \<open>p\<close>: the match at the leftmost position that has
  one. \<open>match_not_null_at\<close> is the search with the flags \<open>match_not_null\<close> and
  \<open>match_continuous\<close>: the first non-empty match that starts exactly at \<open>p\<close>.
\<close>

definition match_at :: "regex \<Rightarrow> string \<Rightarrow> nat \<Rightarrow> smatch option" where
  "match_at r s p = (case ends r s (p, Map.empty) of [] \<Rightarrow> None | st # _ \<Rightarrow> Some (make_match p st))"

definition regex_search :: "regex \<Rightarrow> string \<Rightarrow> nat \<Rightarrow> smatch option" where
  "regex_search r s p =
     (case List.map_filter (match_at r s) [p ..< Suc (length s)] of [] \<Rightarrow> None | m # _ \<Rightarrow> Some m)"

definition match_not_null_at :: "regex \<Rightarrow> string \<Rightarrow> nat \<Rightarrow> smatch option" where
  "match_not_null_at r s p =
     (case filter (\<lambda>st. p < fst st) (ends r s (p, Map.empty)) of
        [] \<Rightarrow> None | st # _ \<Rightarrow> Some (make_match p st))"

text \<open>
  \<open>std::sregex_iterator\<close>: the successive matches in a line. After a non-empty match the
  search goes on from its end. After an empty match the iterator stops at the end of the
  line; elsewhere it first looks for a non-empty match at the same position and otherwise
  searches from the next position. The counter bounds the number of matches, which is at
  most one more than the length of the line.
\<close>

fun matches_after :: "nat \<Rightarrow> regex \<Rightarrow> string \<Rightarrow> smatch \<Rightarrow> smatch list" where
  "matches_after 0 r s m = []"
| "matches_after (Suc n) r s m =
     (if match_first m = match_second m then
        (if length s \<le> match_second m then []
         else (case match_not_null_at r s (match_second m) of
                 Some m' \<Rightarrow> m' # matches_after n r s m'
               | None \<Rightarrow>
                   (case regex_search r s (Suc (match_second m)) of
                      None \<Rightarrow> []
                    | Some m' \<Rightarrow> m' # matches_after n r s m')))
      else (case regex_search r s (match_second m) of
              None \<Rightarrow> []
            | Some m' \<Rightarrow> m' # matches_after n r s m'))"

definition sregex_iterator :: "regex \<Rightarrow> string \<Rightarrow> smatch list" where
  "sregex_iterator r s =
     (case regex_search r s 0 of
        None \<Rightarrow> []
      | Some m \<Rightarrow> m # matches_after (Suc (length s)) r s m)"

section \<open>The pattern registry and the extractor's configuration\<close>

fun seq :: "regex list \<Rightarrow> regex" where
  "seq [] = Eps"
| "seq [r] = r"
| "seq (r # rs) = Seq r (seq rs)"

definition lit :: "string \<Rightarrow> regex list" where
  "lit cs = map (\<lambda>c. Atom (Lit c)) cs"

text \<open>
  Lines 21 and 22, a quoted literal: the quote, then group 1, which is a run of characters
  other than the quote and the backslash followed by any number of repetitions of group 2
  (a backslash, any character, and another such run), then the quote.

  Line 22, for the single quote, is this pattern as written. Line 21, for the double quote,
  is not: a raw string literal ends at the first closing parenthesis that is followed by a
  double quote, and in line 21 that is the parenthesis that closes group 1, just before
  the closing quote of the pattern. As written, the literal of line 21 is therefore the
  pattern up to and without that parenthesis, a regular expression with an unclosed group,
  and what follows it on the line is an unterminated string literal, so the line is
  ill-formed. \<open>quoted_rule dquote\<close> is the pattern line 21 intends (its comment says
  double quoted strings, and line 22 is its twin), not what it holds as written.
\<close>

definition quoted_rule :: "char \<Rightarrow> regex" where
  "quoted_rule q =
     seq [Atom (Lit q),
          Group 1 (Seq (Star (Atom (Neg [q, backslash])))
                       (Star (Group 2 (seq [Atom (Lit backslash), Atom Dot,
                                            Star (Atom (Neg [q, backslash]))])))),
          Atom (Lit q)]"

text \<open>
  Lines 23-30: the key, optional whitespace, a colon or an equals sign, optional
  whitespace, either quote, group 1 (one or more characters that are not a quote), either
  quote.
\<close>

definition key_rule :: "string \<Rightarrow> regex" where
  "key_rule key =
     seq (lit key @
          [Star (Atom Space), Atom (Pos '':=''), Star (Atom Space),
           Atom (Pos [dquote, squote]),
           Group 1 (Plus (Atom (Neg [dquote, squote]))),
           Atom (Pos [dquote, squote])])"

text \<open>
  Lines 31-39: the opening tag, group 1 (one or more characters other than the opening
  angle bracket), the closing tag.
\<close>

definition tag_rule :: "string \<Rightarrow> regex" where
  "tag_rule tag =
     seq (lit (''<'' @ tag @ ''>'') @ [Group 1 (Plus (Atom (Neg ''<'')))] @ lit (''</'' @ tag @ ''>''))"

text \<open>
  The private members of \<open>TextExtractor\<close> (lines 20-53) with their initial values. The
  class has a setter for the extensions only, so \<open>text_patterns\<close>,
  \<open>min_text_length\<close> and \<open>max_chunk_size\<close> always have these values in the program;
  the functions below take the whole record, and the theorems hold for any values unless
  they say otherwise.
\<close>

record TextExtractor =
  text_patterns :: "regex list"
  supported_extensions :: "string list"
  min_text_length :: nat
  max_chunk_size :: nat

text \<open>
  The rules of lines 22-39, which are well-formed as written, and the registry: these
  rules after the rule line 21 intends. \<open>default_extractor\<close> has the registry with
  the intended rule of line 21.
\<close>

definition rules_22_to_39 :: "regex list" where
  "rules_22_to_39 =
     [quoted_rule squote,
      key_rule ''text'', key_rule ''label'', key_rule ''message'', key_rule ''title'',
      key_rule ''description'', key_rule ''name'', key_rule ''value'', key_rule ''content'',
      tag_rule ''text'', tag_rule ''string'', tag_rule ''message'', tag_rule ''label'',
      tag_rule ''title'', tag_rule ''description'', tag_rule ''name'', tag_rule ''value'',
      tag_rule ''content'']"

definition default_text_patterns :: "regex list" where
  "default_text_patterns = quoted_rule dquote # rules_22_to_39"

definition default_extensions :: "string list" where
  "default_extensions =
     [''.csv'', ''.erb'', ''.erh'', ''.py'', ''.cpp'', ''.c'', ''.h'', ''.hpp'', ''.cs'',
      ''.java'', ''.js'', ''.ts'', ''.jsx'', ''.tsx'', ''.xml'', ''.json'', ''.yaml'', ''.yml'',
      ''.ini'', ''.cfg'', ''.txt'', ''.lua'', ''.rpy'', ''.unity'', ''.prefab'', ''.asset'',
      ''.scene'', ''.csproj'', ''.sln'']"

definition default_extractor :: TextExtractor where
  "default_extractor =
     \<lparr>text_patterns = default_text_patterns, supported_extensions = default_extensions,
      min_text_length = 3, max_chunk_size = 50000\<rparr>"

section \<open>The text cleaner\<close>

text \<open>
  \<open>std::regex_replace\<close> with a pattern that matches exactly the two characters \<open>a b\<close>
  and a replacement without a dollar sign: every match, found from left to right without
  overlap, is replaced, and the other characters are copied.
\<close>

fun replace_pair :: "char \<Rightarrow> char \<Rightarrow> string \<Rightarrow> string \<Rightarrow> string" where
  "replace_pair a b r (x # y # s) =
     (if x = a \<and> y = b then r @ replace_pair a b r s else x # replace_pair a b r (y # s))"
| "replace_pair a b r s = s"

text \<open>Lines 328-333: the six substitutions, each applied to the result of the one before.\<close>

definition unescape :: "string \<Rightarrow> string" where
  "unescape cleaned0 =
     (let cleaned1 = replace_pair backslash CHR ''n'' [LF] cleaned0;
          cleaned2 = replace_pair backslash CHR ''t'' [TAB] cleaned1;
          cleaned3 = replace_pair backslash CHR ''r'' [CR] cleaned2;
          cleaned4 = replace_pair backslash dquote [dquote] cleaned3;
          cleaned5 = replace_pair backslash squote [squote] cleaned4
      in replace_pair backslash backslash [backslash] cleaned5)"

text \<open>Lines 336-341: the leading whitespace is erased, then the trailing whitespace.\<close>

definition trim :: "string \<Rightarrow> string" where
  "trim s = rev (dropWhile isspace (rev (dropWhile isspace s)))"

definition clean_text :: "string \<Rightarrow> string" where
  "clean_text s = trim (unescape s)"

section \<open>The file system\<close>

text \<open>
  What the program reads from its environment. \<open>walk d\<close> is what
  \<open>recursive_directory_iterator\<close> yields under \<open>d\<close>: the entries it reaches, and the
  message of the exception that ends the iteration early, if one does. \<open>contents p\<close>
  is the list of lines \<open>std::getline\<close> reads from the file \<open>p\<close>, or \<open>None\<close> when
  the file cannot be opened. What the program writes to \<open>std::cerr\<close> is returned as a
  list of lines.
\<close>

record dir_entry =
  entry_path :: string
  is_regular_file :: bool

record filesystem =
  walk :: "string \<Rightarrow> dir_entry list \<times> string option"
  contents :: "string \<rightharpoonup> string list"

section \<open>The file scanner\<close>

text \<open>
  \<open>path::extension()\<close>: the part of the file name from its last dot on; empty for the
  names \<open>.\<close> and \<open>..\<close>, for a name without a dot and for a name whose only dot is its
  first character. \<open>::tolower\<close> in the C locale.
\<close>

definition filename :: "string \<Rightarrow> string" where
  "filename p = rev (takeWhile (\<lambda>c. c \<noteq> CHR ''/'') (rev p))"

definition extension :: "string \<Rightarrow> string" where
  "extension p =
     (let f = filename p in
      if f = ''.'' \<or> f = ''..'' \<or> CHR ''.'' \<notin> set f then []
      else if tl (dropWhile (\<lambda>c. c \<noteq> CHR ''.'') (rev f)) = [] then []
      else CHR ''.'' # rev (takeWhile (\<lambda>c. c \<noteq> CHR ''.'') (rev f)))"

definition tolower :: "char \<Rightarrow> char" where
  "tolower c = (if 65 \<le> (of_char c :: nat) \<and> (of_char c :: nat) \<le> 90
                then char_of ((of_char c :: nat) + 32) else c)"

text \<open>Lines 84-106.\<close>

definition scan_directory :: "TextExtractor \<Rightarrow> filesystem \<Rightarrow> string \<Rightarrow> string list \<times> string list" where
  "scan_directory this fs directory_path =
     (let (entries, failure) = walk fs directory_path;
          files = map entry_path
                    (filter (\<lambda>entry. is_regular_file entry \<and>
                               map tolower (extension (entry_path entry)) \<in> set (supported_extensions this))
                       entries)
      in (files, case failure of None \<Rightarrow> [] | Some what \<Rightarrow> [''Error scanning directory: '' @ what]))"

section \<open>The extraction engine\<close>

text \<open>
  Lines 129-146: the chunk made from one match, if its cleaned text is long enough.
\<close>

definition match_chunk :: "TextExtractor \<Rightarrow> string \<Rightarrow> nat \<Rightarrow> string \<Rightarrow> smatch \<Rightarrow> TextChunk list" where
  "match_chunk this path line_no line m =
     (let cleaned = clean_text (sub_str line m 1) in
      if min_text_length this \<le> length cleaned then
        [\<lparr>chunk_text = cleaned,
          file_path = path,
          line_number = line_no,
          column_start = position line m 1,
          column_end = position line m 1 + match_length m 1,
          chunk_context = line,
          original_text = match_str line m\<rparr>]
      else [])"

text \<open>Lines 124-148: every pattern, in the order of the registry, and every match of it.\<close>

definition pattern_chunks :: "TextExtractor \<Rightarrow> string \<Rightarrow> nat \<Rightarrow> string \<Rightarrow> regex \<Rightarrow> TextChunk list" where
  "pattern_chunks this path line_no line pattern =
     concat (map (match_chunk this path line_no line) (sregex_iterator pattern line))"

definition line_chunks :: "TextExtractor \<Rightarrow> string \<Rightarrow> nat \<Rightarrow> string \<Rightarrow> TextChunk list" where
  "line_chunks this path line_no line =
     concat (map (pattern_chunks this path line_no line) (text_patterns this))"

text \<open>
  Lines 119-149: the \<open>while\<close> loop over the lines; \<open>line_no\<close> is the counter before
  the line is read.
\<close>

fun read_lines :: "TextExtractor \<Rightarrow> string \<Rightarrow> nat \<Rightarrow> string list \<Rightarrow> TextChunk list" where
  "read_lines this path line_no [] = []"
| "read_lines this path line_no (line # rest) =
     line_chunks this path (line_no + 1) line @ read_lines this path (line_no + 1) rest"

text \<open>
  Lines 109-157. The result is the chunk list together with what the call writes to
  \<open>std::cerr\<close>. A file that cannot be opened takes the early \<open>return chunks\<close> of line
  115, which writes nothing. The \<open>catch\<close> block of lines 152-154 is the only place that
  writes; it is entered on an exception, and nothing in the model of the \<open>try\<close> block
  raises one (a stream does not throw unless asked to).
\<close>

definition extract_from_file :: "TextExtractor \<Rightarrow> filesystem \<Rightarrow> string \<Rightarrow> TextChunk list \<times> string list" where
  "extract_from_file this fs path =
     (case contents fs path of
        None \<Rightarrow> ([], [])
      | Some file_lines \<Rightarrow> (read_lines this path 0 file_lines, []))"

section \<open>The chunk splitter\<close>

subsection \<open>Library functions the splitter calls\<close>

text \<open>
  \<open>std::string::rfind(ch, pos)\<close>: the largest index \<open>i\<close> with \<open>i \<le> pos\<close>,
  \<open>i < size()\<close> and \<open>s[i] = ch\<close>; \<open>npos\<close> (here \<open>None\<close>) when there is none.
\<close>

fun rfind :: "string \<Rightarrow> char \<Rightarrow> nat \<Rightarrow> nat option" where
  "rfind s ch 0 = (if 0 < length s \<and> s ! 0 = ch then Some 0 else None)"
| "rfind s ch (Suc i) =
     (if Suc i < length s \<and> s ! Suc i = ch then Some (Suc i) else rfind s ch i)"

text \<open>
  \<open>std::string::substr(pos, n)\<close> for \<open>pos \<le> size()\<close>: the characters from
  \<open>pos\<close> on, at most \<open>n\<close> of them. (For \<open>pos > size()\<close> the library throws; the
  splitter calls it with \<open>start < text.length()\<close> only.)
\<close>

definition substr :: "string \<Rightarrow> nat \<Rightarrow> nat \<Rightarrow> string" where
  "substr s pos n = take n (drop pos s)"

text \<open>\<open>std::to_string\<close> on an unsigned value: its decimal digits.\<close>

definition digit_char :: "nat \<Rightarrow> char" where
  "digit_char d = ''0123456789'' ! d"

fun to_string :: "nat \<Rightarrow> string" where
  "to_string n = (if n < 10 then [digit_char n] else to_string (n div 10) @ [digit_char (n mod 10)])"

declare to_string.simps [simp del]

subsection \<open>One iteration of the splitting loop\<close>

text \<open>
  Lines 173-181: the end of the fragment that starts at \<open>start\<close>. The hard boundary
  is \<open>min (start + max_chunk_size) (length text)\<close>; when it lies before the end of the
  text, the last space at or before it is taken instead, if there is one strictly after
  \<open>start\<close>.
\<close>

definition fragment_end :: "nat \<Rightarrow> string \<Rightarrow> nat \<Rightarrow> nat" where
  "fragment_end max_size txt start =
     (let end0 = min (start + max_size) (length txt) in
      if end0 < length txt then
        (case rfind txt CHR '' '' end0 of
           Some last_space \<Rightarrow> if last_space > start then last_space else end0
         | None \<Rightarrow> end0)
      else end0)"

text \<open>Lines 183-185: the fragment is a copy of the chunk with two fields replaced.\<close>

definition new_chunk :: "TextChunk \<Rightarrow> string \<Rightarrow> nat \<Rightarrow> nat \<Rightarrow> nat \<Rightarrow> TextChunk" where
  "new_chunk chunk txt start end1 chunk_id =
     chunk\<lparr>chunk_text := substr txt start (end1 - start),
           file_path := file_path chunk @ ''_chunk_'' @ to_string chunk_id\<rparr>"

text \<open>
  Lines 188-191: the next fragment starts at the cut, or one past it when the cut is at a
  space.
\<close>

definition next_start :: "string \<Rightarrow> nat \<Rightarrow> nat" where
  "next_start txt end1 =
     (if end1 < length txt \<and> txt ! end1 = CHR '' '' then end1 + 1 else end1)"

subsection \<open>The loops\<close>

text \<open>
  The \<open>while\<close> loop of lines 172-193, with its variables \<open>start\<close>, \<open>chunk_id\<close>
  and \<open>result\<close> as arguments. The loop need not terminate (it does not when
  \<open>max_chunk_size\<close> is 0 and the text has a character that is not a space), so it is a
  partial function: \<open>None\<close> is a run that never returns.
\<close>

partial_function (option) split_loop ::
  "nat \<Rightarrow> TextChunk \<Rightarrow> string \<Rightarrow> nat \<Rightarrow> nat \<Rightarrow> TextChunk list \<Rightarrow> TextChunk list option" where
  "split_loop max_size chunk txt start chunk_id result =
     (if start < length txt then
        split_loop max_size chunk txt
          (next_start txt (fragment_end max_size txt start))
          (chunk_id + 1)
          (result @ [new_chunk chunk txt start (fragment_end max_size txt start) chunk_id])
      else Some result)"

declare split_loop.simps [code]

text \<open>The \<open>for\<close> loop of lines 163-195 over the input chunks.\<close>

fun split_chunks :: "nat \<Rightarrow> TextChunk list \<Rightarrow> TextChunk list \<Rightarrow> TextChunk list option" where
  "split_chunks max_size [] result = Some result"
| "split_chunks max_size (chunk # rest) result =
     (if length (chunk_text chunk) \<le> max_size
      then split_chunks max_size rest (result @ [chunk])
      else (case split_loop max_size chunk (chunk_text chunk) 0 0 result of
              None \<Rightarrow> None
            | Some result' \<Rightarrow> split_chunks max_size rest result'))"

definition split_into_chunks :: "TextExtractor \<Rightarrow> TextChunk list \<Rightarrow> TextChunk list option" where
  "split_into_chunks this input = split_chunks (max_chunk_size this) input []"

subsection \<open>The iterations of the splitting loop as a relation\<close>

text \<open>
  \<open>iterations m t start cuts\<close>: the loop of lines 172-193, entered with \<open>start\<close> on
  the text \<open>t\<close>, runs through the iterations \<open>cuts\<close> and leaves; each iteration is
  recorded as the pair of its \<open>start\<close> and the \<open>end\<close> it cuts at.
  \<open>numbered_fragments\<close> are the chunks these iterations push.
\<close>

inductive iterations :: "nat \<Rightarrow> string \<Rightarrow> nat \<Rightarrow> (nat \<times> nat) list \<Rightarrow> bool"
  for m :: nat and t :: string where
  iterations_done: "\<not> start < length t \<Longrightarrow> iterations m t start []"
| iterations_step: "start < length t \<Longrightarrow>
     iterations m t (next_start t (fragment_end m t start)) cuts \<Longrightarrow>
     iterations m t start ((start, fragment_end m t start) # cuts)"

code_pred iterations .

fun numbered_fragments :: "TextChunk \<Rightarrow> string \<Rightarrow> nat \<Rightarrow> (nat \<times> nat) list \<Rightarrow> TextChunk list" where
  "numbered_fragments c t k [] = []"
| "numbered_fragments c t k ((s, e) # cuts) =
     new_chunk c t s e k # numbered_fragments c t (k + 1) cuts"

text \<open>
  Rejoining fragments: each fragment comes with the flag that says whether the cut after
  it was made at a space, and one space is put back exactly there.
\<close>

fun rejoin :: "(string \<times> bool) list \<Rightarrow> string" where
  "rejoin [] = []"
| "rejoin (piece # rest) = fst piece @ (if snd piece then '' '' else []) @ rejoin rest"

definition cut_text :: "string \<Rightarrow> nat \<times> nat \<Rightarrow> string" where
  "cut_text t se = substr t (fst se) (snd se - fst se)"

definition cut_at_space :: "string \<Rightarrow> nat \<times> nat \<Rightarrow> bool" where
  "cut_at_space t se = (snd se < length t \<and> t ! snd se = CHR '' '')"

section \<open>The result aggregator\<close>

text \<open>Lines 211-214: the loop over the scanned files.\<close>

fun extract_files ::
  "TextExtractor \<Rightarrow> filesystem \<Rightarrow> string list \<Rightarrow> TextChunk list \<times> string list \<Rightarrow> TextChunk list \<times> string list" where
  "extract_files this fs [] acc = acc"
| "extract_files this fs (path # files) acc =
     extract_files this fs files
       (fst acc @ fst (extract_from_file this fs path), snd acc @ snd (extract_from_file this fs path))"

text \<open>Lines 201-225, without the clock. \<open>None\<close>: the splitter does not return.\<close>

definition extract_texts ::
  "TextExtractor \<Rightarrow> filesystem \<Rightarrow> string \<Rightarrow> (ExtractionResult \<times> string list) option" where
  "extract_texts this fs directory_path =
     (let files = fst (scan_directory this fs directory_path);
          extracted = extract_files this fs files ([], snd (scan_directory this fs directory_path))
      in case split_into_chunks this (fst extracted) of
           None \<Rightarrow> None
         | Some split \<Rightarrow>
             Some (\<lparr>chunks = split, total_files_processed = length files,
                    total_texts_found = length split\<rparr>, snd extracted))"

section \<open>The translation store\<close>

text \<open>
  The local variables of \<open>apply_translations\<close> (lines 292-296); \<open>translation_map\<close> is
  the variable \<open>translations\<close> of the source.
\<close>

record reader =
  current_id :: string
  current_original :: string
  current_translation :: string
  translation_map :: "string \<rightharpoonup> string"

definition initial_reader :: reader where
  "initial_reader =
     \<lparr>current_id = [], current_original = [], current_translation = [], translation_map = Map.empty\<rparr>"

text \<open>\<open>line.find(p) == 0\<close>: the line starts with \<open>p\<close>.\<close>

definition starts_with :: "string \<Rightarrow> string \<Rightarrow> bool" where
  "starts_with line p = (take (length p) line = p)"

text \<open>Lines 299-308: the body of the loop over the lines of the worksheet.\<close>

definition read_line :: "reader \<Rightarrow> string \<Rightarrow> reader" where
  "read_line st line =
     (if starts_with line ''ID: '' then st\<lparr>current_id := drop 4 line\<rparr>
      else if starts_with line ''Original: '' then st\<lparr>current_original := drop 10 line\<rparr>
      else if starts_with line ''Translation: '' then
        (if drop 13 line \<noteq> [] \<and> drop 13 line \<noteq> '' ''
         then st\<lparr>current_translation := drop 13 line,
                 translation_map := (translation_map st)(current_original st \<mapsto> drop 13 line)\<rparr>
         else st\<lparr>current_translation := drop 13 line\<rparr>)
      else st)"

text \<open>
  Lines 284-321. The result is the map the function has built when it reaches the loop
  that prints it (\<open>None\<close> when the file cannot be opened), and what it writes to
  \<open>std::cerr\<close>. The second parameter, \<open>output_dir\<close>, is not used by the source.
\<close>

definition apply_translations ::
  "filesystem \<Rightarrow> string \<Rightarrow> string \<Rightarrow> (string \<rightharpoonup> string) option \<times> string list" where
  "apply_translations fs translation_file output_dir =
     (case contents fs translation_file of
        None \<Rightarrow> (None, [''Could not open translation file: '' @ translation_file])
      | Some file_lines \<Rightarrow> (Some (translation_map (foldl read_line initial_reader file_lines)), []))"

text \<open>
  \<open>std::getline\<close> in a loop over a text: the lines between the line feeds, and the
  rest after the last line feed if it is not empty. \<open>cur\<close> holds the characters of the
  line read so far.
\<close>

fun read_file_lines :: "string \<Rightarrow> string \<Rightarrow> string list" where
  "read_file_lines cur [] = (if cur = [] then [] else [cur])"
| "read_file_lines cur (c # cs) =
     (if c = LF then cur # read_file_lines [] cs else read_file_lines (cur @ [c]) cs)"

definition getlines :: "string \<Rightarrow> string list" where
  "getlines content = read_file_lines [] content"

text \<open>
  The worksheet format, as \<open>save_extracted_texts\<close> writes it (lines 264-273) and a
  translator fills it in: a header, and per record the fields \<open>ID\<close>, \<open>File\<close>,
  \<open>Line\<close>, \<open>Original\<close>, \<open>Translation\<close>, the delimiter and an empty line.
  \<open>record_lines\<close> and \<open>worksheet\<close> are the strings the program writes, each followed
  by a line feed in the file: \<open>worksheet_text\<close> is the content of the file, and
  \<open>getlines (worksheet_text rs)\<close> is what \<open>apply_translations\<close> reads from it. A
  field that holds a line feed is written as it is and read back as two lines; a
  well-formed record is one whose fields hold none, so that each is on one line.
\<close>

record TranslationRecord =
  record_id :: string
  record_file :: string
  record_line :: string
  original :: string
  translation :: string

definition record_lines :: "TranslationRecord \<Rightarrow> string list" where
  "record_lines r =
     [''ID: '' @ record_id r, ''File: '' @ record_file r, ''Line: '' @ record_line r,
      ''Original: '' @ original r, ''Translation: '' @ translation r, ''---'', []]"

definition worksheet :: "TranslationRecord list \<Rightarrow> string list" where
  "worksheet rs = [''=== MASTER TRANSLATION FILE ==='', []] @ concat (map record_lines rs)"

definition worksheet_text :: "TranslationRecord list \<Rightarrow> string" where
  "worksheet_text rs = concat (map (\<lambda>l. l @ [LF]) (worksheet rs))"

definition well_formed_record :: "TranslationRecord \<Rightarrow> bool" where
  "well_formed_record r =
     (LF \<notin> set (record_id r) \<and> LF \<notin> set (record_file r) \<and> LF \<notin> set (record_line r) \<and>
      LF \<notin> set (original r) \<and> LF \<notin> set (translation r))"

text \<open>A placeholder translation: empty, or a single blank (line 305).\<close>

definition placeholder :: "string \<Rightarrow> bool" where
  "placeholder t = (t = [] \<or> t = '' '')"

text \<open>
  The entry a list of records asks for under the key \<open>k\<close>: the translation of the last
  record that has \<open>k\<close> as its \<open>Original\<close> and a translation that is not a placeholder,
  and none when there is no such record.
\<close>

definition translated_as :: "TranslationRecord list \<Rightarrow> string \<Rightarrow> string option" where
  "translated_as rs k =
     (case filter (\<lambda>r. original r = k \<and> \<not> placeholder (translation r)) rs of
        [] \<Rightarrow> None
      | r # xs \<Rightarrow> Some (translation (last (r # xs))))"

text \<open>
  The pieces the splitter pushes for one input chunk: the chunk itself when it is within
  the bound, and otherwise the fragments of the iterations of the splitting loop on its
  text, numbered from 0.
\<close>

definition chunk_pieces :: "nat \<Rightarrow> TextChunk \<Rightarrow> TextChunk list \<Rightarrow> bool" where
  "chunk_pieces m c frs =
     (if length (chunk_text c) \<le> m then frs = [c]
      else (\<exists>cuts. iterations m (chunk_text c) 0 cuts \<and>
                   frs = numbered_fragments c (chunk_text c) 0 cuts))"

section \<open>Sample inputs\<close>

text \<open>Concrete inputs on which the theorems below are instantiated.\<close>

definition sample_chunk :: "string \<Rightarrow> TextChunk" where
  "sample_chunk t = \<lparr>chunk_text = t, file_path = ''a.txt'', line_number = 1, column_start = 0,
     column_end = length t, chunk_context = t, original_text = t\<rparr>"

definition small_extractor :: "nat \<Rightarrow> TextExtractor" where
  "small_extractor m = default_extractor\<lparr>max_chunk_size := m\<rparr>"

text \<open>A file system with one readable file \<open>w\<close> and nothing to scan.\<close>

definition file_with :: "string list \<Rightarrow> filesystem" where
  "file_with file_lines = \<lparr>walk = (\<lambda>d. ([], None)), contents = [''w'' \<mapsto> file_lines]\<rparr>"

definition sample_record :: "string \<Rightarrow> string \<Rightarrow> string \<Rightarrow> TranslationRecord" where
  "sample_record n original_value translation_value =
     \<lparr>record_id = n, record_file = ''a.txt'', record_line = n,
      original = original_value, translation = translation_value\<rparr>"

text \<open>The updates of the map that the records of a worksheet ask for, in their order.\<close>

definition record_update :: "(string \<rightharpoonup> string) \<Rightarrow> TranslationRecord \<Rightarrow> (string \<rightharpoonup> string)" where
  "record_update m r = (if placeholder (translation r) then m else m(original r \<mapsto> translation r))"

text \<open>
  The line of scenario A, \<open>name: "Hello World"\<close>, and the chunk the extraction makes
  of it, up to its path, its line number and the span of the match.
\<close>

definition hello_line :: string where
  "hello_line = ''name: '' @ [dquote] @ ''Hello World'' @ [dquote]"

definition hello_chunk :: "string \<Rightarrow> nat \<Rightarrow> string \<Rightarrow> TextChunk" where
  "hello_chunk path n matched =
     \<lparr>chunk_text = ''Hello World'', file_path = path, line_number = n, column_start = 7,
      column_end = 18, chunk_context = hello_line, original_text = matched\<rparr>"

text \<open>
  A directory with two files of a supported extension: \<open>dir/a.txt\<close> cannot be opened,
  \<open>dir/b.txt\<close> holds the line of scenario A.
\<close>

definition sample_fs :: filesystem where
  "sample_fs =
     \<lparr>walk = (\<lambda>d. if d = ''dir''
                   then ([\<lparr>entry_path = ''dir/a.txt'', is_regular_file = True\<rparr>,
                          \<lparr>entry_path = ''dir/b.txt'', is_regular_file = True\<rparr>], None)
                   else ([], None)),
      contents = [''dir/b.txt'' \<mapsto> [hello_line]]\<rparr>"

section \<open>Properties of the chunk splitter\<close>

subsection \<open>rfind\<close>

lemma rfind_Some: "rfind s ch p = Some i \<Longrightarrow> i \<le> p \<and> i < length s \<and> s ! i = ch"
  by (induction p) (auto split: if_splits)

lemma rfind_greatest:
  "rfind s ch p = Some i \<Longrightarrow> j \<le> p \<Longrightarrow> j < length s \<Longrightarrow> s ! j = ch \<Longrightarrow> j \<le> i"
  by (induction p) (auto split: if_splits simp: le_Suc_eq)

lemma rfind_None: "rfind s ch p = None \<Longrightarrow> j \<le> p \<Longrightarrow> j < length s \<Longrightarrow> s ! j \<noteq> ch"
  by (induction p) (auto split: if_splits simp: le_Suc_eq)

lemma rfind_absent: "ch \<notin> set s \<Longrightarrow> rfind s ch p = None"
  by (induction p) auto

subsection \<open>One iteration\<close>

lemma fragment_end_bounds:
  "start < length t \<Longrightarrow>
   start \<le> fragment_end m t start \<and> fragment_end m t start \<le> start + m \<and>
   fragment_end m t start \<le> length t"
  by (auto simp: fragment_end_def Let_def min_def split: option.splits dest: rfind_Some)

lemma fragment_end_progress:
  "start < length t \<Longrightarrow> 1 \<le> m \<Longrightarrow> start < fragment_end m t start"
  by (auto simp: fragment_end_def Let_def min_def split: option.splits dest: rfind_Some)

lemma fragment_end_space:
  assumes "start + m < length t" "start < i" "i \<le> start + m" "t ! i = CHR '' ''"
  shows "t ! fragment_end m t start = CHR '' '' \<and> i \<le> fragment_end m t start"
proof (cases "rfind t CHR '' '' (start + m)")
  case None
  with assms show ?thesis using rfind_None[of t "CHR '' ''" "start + m" i] by simp
next
  case (Some k)
  with assms rfind_Some[OF Some] rfind_greatest[OF Some, of i] show ?thesis
    by (simp add: fragment_end_def Let_def min_def)
qed

lemma fragment_end_no_space:
  "CHR '' '' \<notin> set t \<Longrightarrow> fragment_end m t start = min (start + m) (length t)"
  by (simp add: fragment_end_def Let_def rfind_absent)

lemma fragment_end_zero: "start < length t \<Longrightarrow> fragment_end 0 t start = start"
  by (auto simp: fragment_end_def Let_def split: option.splits dest: rfind_Some)

lemma next_start_bounds:
  "e \<le> length t \<Longrightarrow> e \<le> next_start t e \<and> next_start t e \<le> length t"
  by (auto simp: next_start_def)

lemma next_start_no_space: "CHR '' '' \<notin> set t \<Longrightarrow> next_start t e = e"
  by (metis next_start_def nth_mem)

lemma step_progress:
  assumes "1 \<le> m" "start < length t"
  shows "start < next_start t (fragment_end m t start)"
    and "next_start t (fragment_end m t start) \<le> length t"
  using fragment_end_progress[OF assms(2,1)] fragment_end_bounds[OF assms(2), of m]
    next_start_bounds[of "fragment_end m t start" t]
  by linarith+

subsection \<open>The loop and its iterations\<close>

lemmas split_loop_induct = split_loop.raw_induct[rotated 1, consumes 1, case_names step]

lemma split_loop_iterations:
  assumes "split_loop m c t start k res = Some out"
  shows "\<exists>cuts. iterations m t start cuts \<and> out = res @ numbered_fragments c t k cuts"
  using assms
proof (induct rule: split_loop_induct)
  case (step loop m c t start k res out)
  show ?case
  proof (cases "start < length t")
    case False
    with step(2) have "out = res" by simp
    with False show ?thesis by (auto intro: iterations_done)
  next
    case True
    let ?e = "fragment_end m t start"
    from True step(2)
    have "loop m c t (next_start t ?e) (k + 1) (res @ [new_chunk c t start ?e k]) = Some out"
      by simp
    from step(1)[OF this] obtain cuts where
      "iterations m t (next_start t ?e) cuts"
      "out = (res @ [new_chunk c t start ?e k]) @ numbered_fragments c t (k + 1) cuts"
      by blast
    with True have "iterations m t start ((start, ?e) # cuts) \<and>
        out = res @ numbered_fragments c t k ((start, ?e) # cuts)"
      by (auto intro: iterations_step)
    then show ?thesis by blast
  qed
qed

lemma iterations_split_loop:
  "iterations m t start cuts \<Longrightarrow>
   split_loop m c t start k res = Some (res @ numbered_fragments c t k cuts)"
proof (induction arbitrary: k res rule: iterations.induct)
  case (iterations_done start)
  then show ?case by (subst split_loop.simps) simp
next
  case (iterations_step start cuts)
  show ?case
    by (subst split_loop.simps) (simp add: iterations_step)
qed

lemma iterations_exist:
  "1 \<le> m \<Longrightarrow> \<exists>cuts. iterations m t start cuts"
proof (induction "length t - start" arbitrary: start rule: less_induct)
  case less
  show ?case
  proof (cases "start < length t")
    case False
    then show ?thesis by (blast intro: iterations_done)
  next
    case True
    have "length t - next_start t (fragment_end m t start) < length t - start"
      using step_progress[OF less.prems True] True by linarith
    from less.hyps[OF this less.prems] True show ?thesis
      by (blast intro: iterations_step)
  qed
qed

lemma iterations_cut:
  "iterations m t start cuts \<Longrightarrow> (s, e) \<in> set cuts \<Longrightarrow>
     s < length t \<and> start \<le> s \<and> e = fragment_end m t s"
proof (induction rule: iterations.induct)
  case (iterations_done start)
  then show ?case by simp
next
  case (iterations_step start cuts)
  have "start \<le> next_start t (fragment_end m t start)"
    using fragment_end_bounds[OF iterations_step(1), of m]
      next_start_bounds[of "fragment_end m t start" t]
    by linarith
  with iterations_step show ?case by auto
qed

lemma iterations_zero_spaces:
  "iterations 0 t start cuts \<Longrightarrow> start \<le> i \<Longrightarrow> i < length t \<Longrightarrow> t ! i = CHR '' ''"
proof (induction rule: iterations.induct)
  case (iterations_done start)
  then show ?case by simp
next
  case (iterations_step start cuts)
  have e: "fragment_end 0 t start = start" using iterations_step(1) by (rule fragment_end_zero)
  show ?case
  proof (cases "t ! start = CHR '' ''")
    case True
    with iterations_step e show ?thesis
      by (cases "i = start") (auto simp: next_start_def)
  next
    case False
    with iterations_step e show ?thesis by (auto simp: next_start_def)
  qed
qed

lemma rejoin_iterations:
  "iterations m t start cuts \<Longrightarrow>
   rejoin (map (\<lambda>se. (cut_text t se, cut_at_space t se)) cuts) = drop start t"
proof (induction rule: iterations.induct)
  case (iterations_done start)
  then show ?case by simp
next
  case (iterations_step start cuts)
  let ?e = "fragment_end m t start"
  have b: "start \<le> ?e" "?e \<le> length t"
    using fragment_end_bounds[OF iterations_step(1), of m] by auto
  have 1: "substr t start (?e - start) @ drop ?e t = drop start t"
  proof -
    have "take (?e - start) (drop start t) @ drop (?e - start) (drop start t) = drop start t"
      by (rule append_take_drop_id)
    moreover have "drop (?e - start) (drop start t) = drop ?e t" using b by simp
    ultimately show ?thesis by (simp only: substr_def)
  qed
  have 2: "(if ?e < length t \<and> t ! ?e = CHR '' '' then '' '' else []) @ drop (next_start t ?e) t
           = drop ?e t"
    using Cons_nth_drop_Suc[of ?e t] by (auto simp: next_start_def)
  show ?case using iterations_step.IH 1 2 by (simp add: cut_text_def cut_at_space_def)
qed

lemma numbered_fragments_texts:
  "map chunk_text (numbered_fragments c t k cuts) = map (cut_text t) cuts"
  by (induction cuts arbitrary: k) (auto simp: new_chunk_def cut_text_def)

lemma numbered_fragments_fields:
  "f \<in> set (numbered_fragments c t k cuts) \<Longrightarrow>
   line_number f = line_number c \<and> column_start f = column_start c \<and>
   column_end f = column_end c \<and> chunk_context f = chunk_context c \<and>
   original_text f = original_text c"
  by (induction cuts arbitrary: k) (auto simp: new_chunk_def)

lemma iterations_fragment_length:
  assumes "iterations m t start cuts" "f \<in> set (numbered_fragments c t k cuts)"
  shows "length (chunk_text f) \<le> m"
proof -
  from assms(2) have "chunk_text f \<in> set (map chunk_text (numbered_fragments c t k cuts))"
    by simp
  then obtain se where se: "se \<in> set cuts" "chunk_text f = cut_text t se"
    by (auto simp: numbered_fragments_texts)
  obtain s e where [simp]: "se = (s, e)" by (cases se)
  from iterations_cut[OF assms(1), of s e] se
  have "s < length t" "e = fragment_end m t s" by auto
  with fragment_end_bounds[of s t m] have "e - s \<le> m" by auto
  with se show ?thesis by (simp add: cut_text_def substr_def)
qed

subsection \<open>The loop over the chunks\<close>

lemma split_loop_terminates:
  "1 \<le> m \<Longrightarrow> \<exists>out. split_loop m c t start k res = Some out"
  using iterations_exist[of m t start] iterations_split_loop[of m t start _ c k res] by blast

lemma split_chunks_terminates:
  "1 \<le> m \<Longrightarrow> \<exists>out. split_chunks m cs res = Some out"
proof (induction cs arbitrary: res)
  case Nil
  then show ?case by simp
next
  case (Cons c cs)
  from split_loop_terminates[OF Cons.prems, of c "chunk_text c" 0 0 res]
  obtain r where "split_loop m c (chunk_text c) 0 0 res = Some r" by blast
  with Cons show ?case by simp
qed

lemma split_chunks_pieces:
  "split_chunks m cs res = Some out \<Longrightarrow>
   \<exists>fss. out = res @ concat fss \<and> list_all2 (chunk_pieces m) cs fss"
proof (induction cs arbitrary: res)
  case Nil
  then show ?case by simp
next
  case (Cons c cs)
  show ?case
  proof (cases "length (chunk_text c) \<le> m")
    case True
    with Cons.prems have "split_chunks m cs (res @ [c]) = Some out" by simp
    from Cons.IH[OF this] obtain fss where
      "out = (res @ [c]) @ concat fss" "list_all2 (chunk_pieces m) cs fss" by blast
    with True have "out = res @ concat ([c] # fss) \<and> list_all2 (chunk_pieces m) (c # cs) ([c] # fss)"
      by (simp add: chunk_pieces_def)
    then show ?thesis by blast
  next
    case False
    with Cons.prems obtain r where
      r: "split_loop m c (chunk_text c) 0 0 res = Some r" "split_chunks m cs r = Some out"
      by (auto split: option.splits)
    from split_loop_iterations[OF r(1)] obtain cuts where
      cuts: "iterations m (chunk_text c) 0 cuts"
        "r = res @ numbered_fragments c (chunk_text c) 0 cuts" by blast
    from Cons.IH[OF r(2)] obtain fss where
      "out = r @ concat fss" "list_all2 (chunk_pieces m) cs fss" by blast
    with False cuts
    have "out = res @ concat (numbered_fragments c (chunk_text c) 0 cuts # fss) \<and>
          list_all2 (chunk_pieces m) (c # cs) (numbered_fragments c (chunk_text c) 0 cuts # fss)"
      by (auto simp: chunk_pieces_def)
    then show ?thesis by blast
  qed
qed

lemma split_chunks_zero:
  "\<exists>c\<in>set cs. \<exists>ch\<in>set (chunk_text c). ch \<noteq> CHR '' '' \<Longrightarrow> split_chunks 0 cs res = None"
proof (induction cs arbitrary: res)
  case Nil
  then show ?case by simp
next
  case (Cons c cs)
  show ?case
  proof (cases "chunk_text c = []")
    case True
    with Cons.prems have "\<exists>c\<in>set cs. \<exists>ch\<in>set (chunk_text c). ch \<noteq> CHR '' ''" by auto
    from Cons.IH[OF this] True show ?thesis by simp
  next
    case False
    show ?thesis
    proof (cases "split_loop 0 c (chunk_text c) 0 0 res")
      case None
      with False show ?thesis by simp
    next
      case (Some r)
      from split_loop_iterations[OF Some] obtain cuts where
        "iterations 0 (chunk_text c) 0 cuts" by blast
      from iterations_zero_spaces[OF this]
      have "\<forall>ch\<in>set (chunk_text c). ch = CHR '' ''" by (auto simp: in_set_conv_nth)
      with Cons.prems have "\<exists>c\<in>set cs. \<exists>ch\<in>set (chunk_text c). ch \<noteq> CHR '' ''" by auto
      from Cons.IH[OF this] Some False show ?thesis by simp
    qed
  qed
qed

lemma pieces_of_input:
  assumes "split_chunks m cs [] = Some out" "c \<in> set cs"
  shows "\<exists>frs. chunk_pieces m c frs \<and> set frs \<subseteq> set out"
proof -
  from split_chunks_pieces[OF assms(1)] obtain fss where
    fss: "out = concat fss" "list_all2 (chunk_pieces m) cs fss" by auto
  from assms(2) obtain i where i: "i < length cs" "cs ! i = c" by (auto simp: in_set_conv_nth)
  with fss(2) have p: "chunk_pieces m c (fss ! i)" "i < length fss"
    by (auto simp: list_all2_conv_all_nth)
  then have "fss ! i \<in> set fss" by simp
  then have "set (fss ! i) \<subseteq> set out" using fss(1) by auto
  with p show ?thesis by blast
qed

lemma pieces_of_output:
  assumes "split_chunks m cs [] = Some out" "f \<in> set out"
  shows "\<exists>c frs. c \<in> set cs \<and> chunk_pieces m c frs \<and> f \<in> set frs"
proof -
  from split_chunks_pieces[OF assms(1)] obtain fss where
    fss: "out = concat fss" "list_all2 (chunk_pieces m) cs fss" by auto
  from assms(2) fss(1) obtain frs where frs: "frs \<in> set fss" "f \<in> set frs" by auto
  then obtain i where i: "i < length fss" "fss ! i = frs" by (auto simp: in_set_conv_nth)
  with fss(2) have "chunk_pieces m (cs ! i) frs" "i < length cs"
    by (auto simp: list_all2_conv_all_nth)
  with frs show ?thesis by (metis nth_mem)
qed

lemma pieces_bound: "chunk_pieces m c frs \<Longrightarrow> f \<in> set frs \<Longrightarrow> length (chunk_text f) \<le> m"
  by (auto simp: chunk_pieces_def split: if_splits dest: iterations_fragment_length)

text \<open>
  C1. Whatever \<open>split_into_chunks\<close> returns, every returned chunk has a text of at most
  \<open>max_chunk_size\<close> characters, and every input chunk that is within the bound is in
  the output unchanged. For an input chunk over the bound, the output holds the fragments
  of the iterations of the splitting loop on its text, and in every iteration whose hard
  boundary \<open>start + max_chunk_size\<close> lies before the end of the text (so that the cut
  is not at the end of the text), if the searched span has a space strictly after
  \<open>start\<close>, the cut is at a space, strictly after \<open>start\<close> and not beyond the hard
  boundary. With \<open>max_chunk_size\<close> at least 1 (the default is 50000) the function
  returns.
\<close>

theorem split_size_bound:
  "(1 \<le> max_chunk_size this \<longrightarrow> (\<exists>out. split_into_chunks this input = Some out)) \<and>
   (\<forall>out. split_into_chunks this input = Some out \<longrightarrow>
      (\<forall>f\<in>set out. length (chunk_text f) \<le> max_chunk_size this) \<and>
      (\<forall>c\<in>set input. length (chunk_text c) \<le> max_chunk_size this \<longrightarrow> c \<in> set out) \<and>
      (\<forall>c\<in>set input. max_chunk_size this < length (chunk_text c) \<longrightarrow>
         (\<exists>cuts. iterations (max_chunk_size this) (chunk_text c) 0 cuts \<and>
            set (numbered_fragments c (chunk_text c) 0 cuts) \<subseteq> set out \<and>
            (\<forall>(s, e)\<in>set cuts. \<forall>i.
               s + max_chunk_size this < length (chunk_text c) \<and>
               s < i \<and> i \<le> s + max_chunk_size this \<and> chunk_text c ! i = CHR '' '' \<longrightarrow>
               chunk_text c ! e = CHR '' '' \<and> s < e \<and> e \<le> s + max_chunk_size this))))"
proof (intro conjI allI impI)
  assume "1 \<le> max_chunk_size this"
  then show "\<exists>out. split_into_chunks this input = Some out"
    unfolding split_into_chunks_def by (rule split_chunks_terminates)
next
  fix out
  assume "split_into_chunks this input = Some out"
  then have out: "split_chunks (max_chunk_size this) input [] = Some out"
    by (simp add: split_into_chunks_def)
  show "\<forall>f\<in>set out. length (chunk_text f) \<le> max_chunk_size this"
    using pieces_of_output[OF out] pieces_bound by blast
  show "\<forall>c\<in>set input. length (chunk_text c) \<le> max_chunk_size this \<longrightarrow> c \<in> set out"
  proof (intro ballI impI)
    fix c
    assume "c \<in> set input" "length (chunk_text c) \<le> max_chunk_size this"
    with pieces_of_input[OF out, of c] show "c \<in> set out"
      by (auto simp: chunk_pieces_def)
  qed
  show "\<forall>c\<in>set input. max_chunk_size this < length (chunk_text c) \<longrightarrow>
         (\<exists>cuts. iterations (max_chunk_size this) (chunk_text c) 0 cuts \<and>
            set (numbered_fragments c (chunk_text c) 0 cuts) \<subseteq> set out \<and>
            (\<forall>(s, e)\<in>set cuts. \<forall>i.
               s + max_chunk_size this < length (chunk_text c) \<and>
               s < i \<and> i \<le> s + max_chunk_size this \<and> chunk_text c ! i = CHR '' '' \<longrightarrow>
               chunk_text c ! e = CHR '' '' \<and> s < e \<and> e \<le> s + max_chunk_size this))"
  proof (intro ballI impI)
    fix c
    assume c: "c \<in> set input" "max_chunk_size this < length (chunk_text c)"
    let ?m = "max_chunk_size this" and ?t = "chunk_text c"
    from pieces_of_input[OF out c(1)] c(2) obtain cuts where
      cuts: "iterations ?m ?t 0 cuts" "set (numbered_fragments c ?t 0 cuts) \<subseteq> set out"
      by (auto simp: chunk_pieces_def)
    have "\<forall>(s, e)\<in>set cuts. \<forall>i. s + ?m < length ?t \<and> s < i \<and> i \<le> s + ?m \<and> ?t ! i = CHR '' '' \<longrightarrow>
               ?t ! e = CHR '' '' \<and> s < e \<and> e \<le> s + ?m"
    proof (intro ballI, clarify)
      fix s e i
      assume se: "(s, e) \<in> set cuts" and i: "s + ?m < length ?t" "s < i" "i \<le> s + ?m"
        "?t ! i = CHR '' ''"
      from iterations_cut[OF cuts(1) se] have e: "s < length ?t" "e = fragment_end ?m ?t s"
        by auto
      from fragment_end_space[OF i] fragment_end_bounds[OF e(1), of ?m] e(2) i(2)
      show "?t ! e = CHR '' '' \<and> s < e \<and> e \<le> s + ?m" by auto
    qed
    with cuts show "\<exists>cuts. iterations ?m ?t 0 cuts \<and>
            set (numbered_fragments c ?t 0 cuts) \<subseteq> set out \<and>
            (\<forall>(s, e)\<in>set cuts. \<forall>i. s + ?m < length ?t \<and> s < i \<and> i \<le> s + ?m \<and> ?t ! i = CHR '' '' \<longrightarrow>
               ?t ! e = CHR '' '' \<and> s < e \<and> e \<le> s + ?m)" by blast
  qed
qed

lemma sample_split:
  "split_into_chunks (small_extractor 4) [sample_chunk ''ab'', sample_chunk ''abc def gh''] =
   Some [sample_chunk ''ab'',
         (sample_chunk ''abc def gh'')\<lparr>chunk_text := ''abc'', file_path := ''a.txt_chunk_0''\<rparr>,
         (sample_chunk ''abc def gh'')\<lparr>chunk_text := ''def'', file_path := ''a.txt_chunk_1''\<rparr>,
         (sample_chunk ''abc def gh'')\<lparr>chunk_text := ''gh'', file_path := ''a.txt_chunk_2''\<rparr>]"
  by (simp add: split_into_chunks_def small_extractor_def sample_chunk_def split_loop.simps
      fragment_end_def next_start_def new_chunk_def substr_def to_string.simps digit_char_def)

theorem split_size_bound_witness:
  "split_into_chunks (small_extractor 4) [sample_chunk ''ab'', sample_chunk ''abc def gh''] =
     Some [sample_chunk ''ab'',
         (sample_chunk ''abc def gh'')\<lparr>chunk_text := ''abc'', file_path := ''a.txt_chunk_0''\<rparr>,
         (sample_chunk ''abc def gh'')\<lparr>chunk_text := ''def'', file_path := ''a.txt_chunk_1''\<rparr>,
         (sample_chunk ''abc def gh'')\<lparr>chunk_text := ''gh'', file_path := ''a.txt_chunk_2''\<rparr>] \<and>
   list_all (\<lambda>f. length (chunk_text f) \<le> 4)
     [sample_chunk ''ab'',
         (sample_chunk ''abc def gh'')\<lparr>chunk_text := ''abc'', file_path := ''a.txt_chunk_0''\<rparr>,
         (sample_chunk ''abc def gh'')\<lparr>chunk_text := ''def'', file_path := ''a.txt_chunk_1''\<rparr>,
         (sample_chunk ''abc def gh'')\<lparr>chunk_text := ''gh'', file_path := ''a.txt_chunk_2''\<rparr>] \<and>
   (\<exists>cuts. iterations 4 ''abc def gh'' 0 cuts \<and>
      list_all (\<lambda>(s, e). \<forall>i. s + 4 < 10 \<and> s < i \<and> i \<le> s + 4 \<and> ''abc def gh'' ! i = CHR '' '' \<longrightarrow>
         ''abc def gh'' ! e = CHR '' '' \<and> s < e \<and> e \<le> s + 4) cuts)"
proof -
  have m: "max_chunk_size (small_extractor 4) = 4" by (simp add: small_extractor_def)
  have t: "chunk_text (sample_chunk ''abc def gh'') = ''abc def gh''" by (simp add: sample_chunk_def)
  note inst = split_size_bound[of "small_extractor 4" "[sample_chunk ''ab'', sample_chunk ''abc def gh'']",
    unfolded m, THEN conjunct2, rule_format, OF sample_split]
  from inst[THEN conjunct1] have 1: "list_all (\<lambda>f. length (chunk_text f) \<le> 4)
     [sample_chunk ''ab'',
         (sample_chunk ''abc def gh'')\<lparr>chunk_text := ''abc'', file_path := ''a.txt_chunk_0''\<rparr>,
         (sample_chunk ''abc def gh'')\<lparr>chunk_text := ''def'', file_path := ''a.txt_chunk_1''\<rparr>,
         (sample_chunk ''abc def gh'')\<lparr>chunk_text := ''gh'', file_path := ''a.txt_chunk_2''\<rparr>]"
    by (simp only: list_all_iff)
  from inst[THEN conjunct2, THEN conjunct2, rule_format, of "sample_chunk ''abc def gh''"]
  have 2: "\<exists>cuts. iterations 4 ''abc def gh'' 0 cuts \<and>
      list_all (\<lambda>(s, e). \<forall>i. s + 4 < 10 \<and> s < i \<and> i \<le> s + 4 \<and> ''abc def gh'' ! i = CHR '' '' \<longrightarrow>
         ''abc def gh'' ! e = CHR '' '' \<and> s < e \<and> e \<le> s + 4) cuts"
    unfolding t by (auto simp: list_all_iff)
  from sample_split 1 2 show ?thesis by blast
qed

subsection \<open>Round trip\<close>

lemma numbered_fragments_length: "length (numbered_fragments c t k cuts) = length cuts"
  by (induction cuts arbitrary: k) auto

lemma pieces_round_trip:
  assumes "chunk_pieces m c frs" "m < length (chunk_text c)"
  shows "\<exists>cuts. iterations m (chunk_text c) 0 cuts \<and> length cuts = length frs \<and>
           rejoin (zip (map chunk_text frs) (map (cut_at_space (chunk_text c)) cuts)) = chunk_text c"
proof -
  from assms obtain cuts where
    cuts: "iterations m (chunk_text c) 0 cuts" "frs = numbered_fragments c (chunk_text c) 0 cuts"
    by (auto simp: chunk_pieces_def)
  have "zip (map chunk_text frs) (map (cut_at_space (chunk_text c)) cuts)
        = map (\<lambda>se. (cut_text (chunk_text c) se, cut_at_space (chunk_text c) se)) cuts"
    by (simp add: cuts(2) numbered_fragments_texts zip_map_map zip_same_conv_map)
  with rejoin_iterations[OF cuts(1)] cuts show ?thesis
    by (auto simp: numbered_fragments_length)
qed

text \<open>
  C5. With \<open>max_chunk_size\<close> at least 1 (the default is 50000) \<open>split_into_chunks\<close>
  returns, and whatever it returns is the concatenation of the pieces of the input chunks,
  in order. A chunk within the bound is its own single piece. For every input chunk over
  the bound, the fragments returned for it are those of the iterations of the splitting
  loop on its text, one per cut, and joining their texts in order, with one space put back
  after each fragment whose cut was made at a space and nothing at the other cuts, gives
  the text of the chunk.
\<close>

theorem split_round_trip:
  "(1 \<le> max_chunk_size this \<longrightarrow> (\<exists>out. split_into_chunks this input = Some out)) \<and>
   (\<forall>out. split_into_chunks this input = Some out \<longrightarrow>
      (\<exists>fss. out = concat fss \<and>
           list_all2 (\<lambda>c frs.
              if length (chunk_text c) \<le> max_chunk_size this then frs = [c]
              else (\<exists>cuts. iterations (max_chunk_size this) (chunk_text c) 0 cuts \<and>
                      length cuts = length frs \<and>
                      rejoin (zip (map chunk_text frs) (map (cut_at_space (chunk_text c)) cuts))
                        = chunk_text c))
             input fss))"
proof (intro conjI allI impI)
  assume "1 \<le> max_chunk_size this"
  then show "\<exists>out. split_into_chunks this input = Some out"
    unfolding split_into_chunks_def by (rule split_chunks_terminates)
next
  fix out
  assume "split_into_chunks this input = Some out"
  then have "split_chunks (max_chunk_size this) input [] = Some out"
    by (simp add: split_into_chunks_def)
  from split_chunks_pieces[OF this] obtain fss where
    fss: "out = concat fss" "list_all2 (chunk_pieces (max_chunk_size this)) input fss" by auto
  from fss(2) have "list_all2 (\<lambda>c frs.
              if length (chunk_text c) \<le> max_chunk_size this then frs = [c]
              else (\<exists>cuts. iterations (max_chunk_size this) (chunk_text c) 0 cuts \<and>
                      length cuts = length frs \<and>
                      rejoin (zip (map chunk_text frs) (map (cut_at_space (chunk_text c)) cuts))
                        = chunk_text c))
             input fss"
  proof (rule list_all2_mono)
    fix c frs
    assume p: "chunk_pieces (max_chunk_size this) c frs"
    show "if length (chunk_text c) \<le> max_chunk_size this then frs = [c]
              else (\<exists>cuts. iterations (max_chunk_size this) (chunk_text c) 0 cuts \<and>
                      length cuts = length frs \<and>
                      rejoin (zip (map chunk_text frs) (map (cut_at_space (chunk_text c)) cuts))
                        = chunk_text c)"
    proof (cases "length (chunk_text c) \<le> max_chunk_size this")
      case True
      with p show ?thesis by (simp add: chunk_pieces_def)
    next
      case False
      with pieces_round_trip[OF p] show ?thesis by simp
    qed
  qed
  with fss(1) show "\<exists>fss. out = concat fss \<and>
           list_all2 (\<lambda>c frs.
              if length (chunk_text c) \<le> max_chunk_size this then frs = [c]
              else (\<exists>cuts. iterations (max_chunk_size this) (chunk_text c) 0 cuts \<and>
                      length cuts = length frs \<and>
                      rejoin (zip (map chunk_text frs) (map (cut_at_space (chunk_text c)) cuts))
                        = chunk_text c))
             input fss" by blast
qed

lemma sample_split_one:
  "split_into_chunks (small_extractor 4) [sample_chunk ''abc def gh''] =
   Some [(sample_chunk ''abc def gh'')\<lparr>chunk_text := ''abc'', file_path := ''a.txt_chunk_0''\<rparr>,
         (sample_chunk ''abc def gh'')\<lparr>chunk_text := ''def'', file_path := ''a.txt_chunk_1''\<rparr>,
         (sample_chunk ''abc def gh'')\<lparr>chunk_text := ''gh'', file_path := ''a.txt_chunk_2''\<rparr>]"
  by (simp add: split_into_chunks_def small_extractor_def sample_chunk_def split_loop.simps
      fragment_end_def next_start_def new_chunk_def substr_def to_string.simps digit_char_def)

theorem split_round_trip_witness:
  "1 \<le> max_chunk_size (small_extractor 4) \<and>
   split_into_chunks (small_extractor 4) [sample_chunk ''abc def gh''] =
     Some [(sample_chunk ''abc def gh'')\<lparr>chunk_text := ''abc'', file_path := ''a.txt_chunk_0''\<rparr>,
         (sample_chunk ''abc def gh'')\<lparr>chunk_text := ''def'', file_path := ''a.txt_chunk_1''\<rparr>,
         (sample_chunk ''abc def gh'')\<lparr>chunk_text := ''gh'', file_path := ''a.txt_chunk_2''\<rparr>] \<and>
   (\<exists>out. split_into_chunks (small_extractor 4) [sample_chunk ''abc def gh''] = Some out) \<and>
   (\<exists>cuts. iterations 4 ''abc def gh'' 0 cuts \<and> length cuts = 3 \<and>
       rejoin (zip [''abc'', ''def'', ''gh''] (map (cut_at_space ''abc def gh'') cuts)) = ''abc def gh'')"
proof -
  let ?c = "sample_chunk ''abc def gh''"
  let ?out = "[?c\<lparr>chunk_text := ''abc'', file_path := ''a.txt_chunk_0''\<rparr>,
         ?c\<lparr>chunk_text := ''def'', file_path := ''a.txt_chunk_1''\<rparr>,
         ?c\<lparr>chunk_text := ''gh'', file_path := ''a.txt_chunk_2''\<rparr>]"
  have m: "max_chunk_size (small_extractor 4) = 4" by (simp add: small_extractor_def)
  then have m1: "1 \<le> max_chunk_size (small_extractor 4)" by simp
  have t: "chunk_text ?c = ''abc def gh''" by (simp add: sample_chunk_def)
  note inst = split_round_trip[of "small_extractor 4" "[?c]"]
  from inst[THEN conjunct1, rule_format, OF m1]
  have total: "\<exists>out. split_into_chunks (small_extractor 4) [?c] = Some out" .
  from inst[THEN conjunct2, rule_format, OF sample_split_one] obtain fss where
    fss: "?out = concat fss"
    and all: "list_all2 (\<lambda>c frs.
              if length (chunk_text c) \<le> max_chunk_size (small_extractor 4) then frs = [c]
              else (\<exists>cuts. iterations (max_chunk_size (small_extractor 4)) (chunk_text c) 0 cuts \<and>
                      length cuts = length frs \<and>
                      rejoin (zip (map chunk_text frs) (map (cut_at_space (chunk_text c)) cuts))
                        = chunk_text c))
             [?c] fss"
    by blast
  from all obtain frs where frs: "fss = [frs]"
    and r: "\<exists>cuts. iterations 4 ''abc def gh'' 0 cuts \<and> length cuts = length frs \<and>
                      rejoin (zip (map chunk_text frs) (map (cut_at_space ''abc def gh'') cuts))
                        = ''abc def gh''"
    by (auto simp: list_all2_Cons1 m t)
  from fss frs have "frs = ?out" by simp
  with r have "\<exists>cuts. iterations 4 ''abc def gh'' 0 cuts \<and> length cuts = 3 \<and>
       rejoin (zip [''abc'', ''def'', ''gh''] (map (cut_at_space ''abc def gh'') cuts)) = ''abc def gh''"
    by (simp add: numeral_3_eq_3)
  with sample_split_one m1 total show ?thesis by blast
qed

subsection \<open>Scenario B\<close>

lemma default_max: "max_chunk_size default_extractor = 50000"
  by (simp add: default_extractor_def)

lemma to_string_small:
  "to_string 0 = ''0''" "to_string 1 = ''1''" "to_string (Suc 0) = ''1''" "to_string 2 = ''2''"
  by (simp_all add: to_string.simps digit_char_def)

lemma scenario_B_iterations:
  assumes len: "length t = 120000" and ns: "CHR '' '' \<notin> set t"
  shows "iterations 50000 t 0 [(0, 50000), (50000, 100000), (100000, 120000)]"
proof -
  have fe: "\<And>start. fragment_end 50000 t start = min (start + 50000) 120000"
    using fragment_end_no_space[OF ns] len by simp
  have nx: "\<And>e. next_start t e = e" using next_start_no_space[OF ns] by simp
  have i3: "iterations 50000 t 120000 []" by (rule iterations_done) (simp add: len)
  have i2: "iterations 50000 t 100000 [(100000, 120000)]"
    using iterations_step[where m = 50000 and t = t and start = 100000 and cuts = "[]"] i3
    by (simp add: fe nx len)
  have i1: "iterations 50000 t 50000 [(50000, 100000), (100000, 120000)]"
    using iterations_step[where m = 50000 and t = t and start = 50000
        and cuts = "[(100000, 120000)]"] i2
    by (simp add: fe nx len)
  show ?thesis
    using iterations_step[where m = 50000 and t = t and start = 0
        and cuts = "[(50000, 100000), (100000, 120000)]"] i1
    by (simp add: fe nx len)
qed

text \<open>
  C6. A single chunk whose text has 120000 characters, none of them a space, is split
  with \<open>max_chunk_size = 50000\<close> (the default) into exactly three fragments, of 50000,
  50000 and 20000 characters in this order, whose paths are the chunk's path followed by
  \<open>_chunk_0\<close>, \<open>_chunk_1\<close> and \<open>_chunk_2\<close>: the counter starts at 0 for the chunk.
\<close>

theorem scenario_B:
  assumes "length (chunk_text c) = 120000" and "CHR '' '' \<notin> set (chunk_text c)"
  shows "\<exists>f0 f1 f2. split_into_chunks default_extractor [c] = Some [f0, f1, f2] \<and>
           length (chunk_text f0) = 50000 \<and> length (chunk_text f1) = 50000 \<and>
           length (chunk_text f2) = 20000 \<and>
           file_path f0 = file_path c @ ''_chunk_0'' \<and>
           file_path f1 = file_path c @ ''_chunk_1'' \<and>
           file_path f2 = file_path c @ ''_chunk_2''"
proof -
  let ?t = "chunk_text c"
  from iterations_split_loop[OF scenario_B_iterations[OF assms], of c 0 "[]"]
  have "split_loop 50000 c ?t 0 0 [] =
          Some [new_chunk c ?t 0 50000 0, new_chunk c ?t 50000 100000 1,
                new_chunk c ?t 100000 120000 2]"
    by (simp add: numeral_2_eq_2)
  then have "split_into_chunks default_extractor [c] =
          Some [new_chunk c ?t 0 50000 0, new_chunk c ?t 50000 100000 1,
                new_chunk c ?t 100000 120000 2]"
    using assms(1) by (simp add: split_into_chunks_def default_max)
  moreover have "length (chunk_text (new_chunk c ?t 0 50000 0)) = 50000"
    "length (chunk_text (new_chunk c ?t 50000 100000 1)) = 50000"
    "length (chunk_text (new_chunk c ?t 100000 120000 2)) = 20000"
    using assms(1) by (simp_all add: new_chunk_def substr_def)
  moreover have "file_path (new_chunk c ?t 0 50000 0) = file_path c @ ''_chunk_0''"
    "file_path (new_chunk c ?t 50000 100000 1) = file_path c @ ''_chunk_1''"
    "file_path (new_chunk c ?t 100000 120000 2) = file_path c @ ''_chunk_2''"
    by (simp_all add: new_chunk_def to_string_small)
  ultimately show ?thesis by blast
qed

theorem scenario_B_witness:
  "length (chunk_text (sample_chunk (replicate 120000 CHR ''x''))) = 120000 \<and>
   CHR '' '' \<notin> set (chunk_text (sample_chunk (replicate 120000 CHR ''x''))) \<and>
   (\<exists>f0 f1 f2. split_into_chunks default_extractor [sample_chunk (replicate 120000 CHR ''x'')]
        = Some [f0, f1, f2] \<and>
           length (chunk_text f0) = 50000 \<and> length (chunk_text f1) = 50000 \<and>
           length (chunk_text f2) = 20000 \<and>
           file_path f0 = ''a.txt_chunk_0'' \<and>
           file_path f1 = ''a.txt_chunk_1'' \<and>
           file_path f2 = ''a.txt_chunk_2'')"
proof -
  have 1: "length (chunk_text (sample_chunk (replicate 120000 CHR ''x''))) = 120000"
    by (simp add: sample_chunk_def)
  have 2: "CHR '' '' \<notin> set (chunk_text (sample_chunk (replicate 120000 CHR ''x'')))"
    by (simp add: sample_chunk_def)
  have 3: "file_path (sample_chunk (replicate 120000 CHR ''x'')) = ''a.txt''"
    by (simp add: sample_chunk_def)
  from scenario_B[OF 1 2] 1 2 show ?thesis unfolding 3 by simp
qed

subsection \<open>Termination\<close>

text \<open>
  C10, as the code has it. With \<open>max_chunk_size\<close> at least 1, \<open>split_into_chunks\<close>
  returns for every input: each iteration of the splitting loop ends strictly after its
  start, and so does the next start; when the cut is not the hard boundary it is at a
  space strictly after the start. With \<open>max_chunk_size = 0\<close> the function does not
  return as soon as some input chunk has a character other than a space, so the
  precondition is needed. (A text of spaces only is different: with \<open>max_chunk_size = 0\<close>
  the loop drops one space per iteration and returns, so it is not true that the loop
  makes no progress on every non-empty text.)
\<close>

theorem split_terminates:
  "(1 \<le> max_chunk_size this \<longrightarrow> (\<exists>out. split_into_chunks this input = Some out)) \<and>
   (1 \<le> m \<and> start < length t \<longrightarrow>
      start < next_start t (fragment_end m t start) \<and>
      start < fragment_end m t start \<and>
      (fragment_end m t start \<noteq> min (start + m) (length t) \<longrightarrow>
         start < fragment_end m t start \<and> t ! fragment_end m t start = CHR '' '')) \<and>
   (max_chunk_size this = 0 \<and> (\<exists>c\<in>set input. \<exists>ch\<in>set (chunk_text c). ch \<noteq> CHR '' '') \<longrightarrow>
      split_into_chunks this input = None)"
proof (intro conjI impI)
  assume "1 \<le> max_chunk_size this"
  then show "\<exists>out. split_into_chunks this input = Some out"
    unfolding split_into_chunks_def by (rule split_chunks_terminates)
next
  assume a: "1 \<le> m \<and> start < length t"
  then show "start < next_start t (fragment_end m t start)"
    using step_progress(1)[of m start t] by simp
  from a show "start < fragment_end m t start"
    using fragment_end_progress[of start t m] by simp
next
  assume a: "1 \<le> m \<and> start < length t"
    and b: "fragment_end m t start \<noteq> min (start + m) (length t)"
  from a show "start < fragment_end m t start"
    using fragment_end_progress[of start t m] by simp
  from b show "t ! fragment_end m t start = CHR '' ''"
    by (auto simp: fragment_end_def Let_def split: if_splits option.splits dest: rfind_Some)
next
  assume "max_chunk_size this = 0 \<and> (\<exists>c\<in>set input. \<exists>ch\<in>set (chunk_text c). ch \<noteq> CHR '' '')"
  then show "split_into_chunks this input = None"
    using split_chunks_zero[of input "[]"] by (simp add: split_into_chunks_def)
qed

lemma sample_zero_stuck:
  "max_chunk_size (small_extractor 0) = 0 \<and>
   (\<exists>c\<in>set [sample_chunk ''a b'']. \<exists>ch\<in>set (chunk_text c). ch \<noteq> CHR '' '')"
  by (simp add: small_extractor_def sample_chunk_def)

theorem split_terminates_witness:
  "split_into_chunks (small_extractor 4) [sample_chunk ''ab'', sample_chunk ''abc def gh''] \<noteq> None \<and>
   (0::nat) < next_start ''abc def gh'' (fragment_end 4 ''abc def gh'' 0) \<and>
   fragment_end 4 ''abc def gh'' 0 \<noteq> min (0 + 4) (length ''abc def gh'') \<and>
   ''abc def gh'' ! fragment_end 4 ''abc def gh'' 0 = CHR '' '' \<and>
   split_into_chunks (small_extractor 0) [sample_chunk ''a b''] = None"
proof -
  have m: "1 \<le> max_chunk_size (small_extractor 4)" by (simp add: small_extractor_def)
  have s: "(1::nat) \<le> 4 \<and> (0::nat) < length ''abc def gh''" by simp
  have fe: "fragment_end 4 ''abc def gh'' 0 \<noteq> min (0 + 4) (length ''abc def gh'')"
    by (simp add: fragment_end_def)
  note inst = split_terminates[of "small_extractor 4"
      "[sample_chunk ''ab'', sample_chunk ''abc def gh'']" 4 0 "''abc def gh''"]
  note inst0 = split_terminates[of "small_extractor 0" "[sample_chunk ''a b'']" 4 0 "''abc def gh''"]
  from inst[THEN conjunct1, rule_format, OF m]
  have 1: "split_into_chunks (small_extractor 4) [sample_chunk ''ab'', sample_chunk ''abc def gh''] \<noteq> None"
    by auto
  from inst[THEN conjunct2, THEN conjunct1, rule_format, OF s]
  have 2: "(0::nat) < next_start ''abc def gh'' (fragment_end 4 ''abc def gh'' 0)"
    and 3: "''abc def gh'' ! fragment_end 4 ''abc def gh'' 0 = CHR '' ''"
    using fe by blast+
  from inst0[THEN conjunct2, THEN conjunct2, rule_format, OF sample_zero_stuck]
  have 4: "split_into_chunks (small_extractor 0) [sample_chunk ''a b''] = None" .
  from 1 2 fe 3 4 show ?thesis by blast
qed

theorem split_zero_progress_counterexample:
  "max_chunk_size (small_extractor 0) = 0 \<and>
   chunk_text (sample_chunk '' '') \<noteq> [] \<and>
   next_start '' '' (fragment_end 0 '' '' 0) = 1 \<and>
   split_into_chunks (small_extractor 0) [sample_chunk '' ''] =
     Some [(sample_chunk '' '')\<lparr>chunk_text := [], file_path := ''a.txt_chunk_0''\<rparr>]"
  by (simp add: split_into_chunks_def small_extractor_def sample_chunk_def split_loop.simps
      fragment_end_def next_start_def new_chunk_def substr_def to_string.simps digit_char_def)

section \<open>Properties of the text cleaner\<close>

lemma replace_pair_absent: "a \<notin> set s \<Longrightarrow> replace_pair a b r s = s"
  by (induction a b r s rule: replace_pair.induct) auto

lemma unescape_no_backslash: "backslash \<notin> set s \<Longrightarrow> unescape s = s"
  by (simp add: unescape_def replace_pair_absent)

lemma dropWhile_keeps: "xs \<noteq> [] \<Longrightarrow> \<not> P (hd xs) \<Longrightarrow> dropWhile P xs = xs"
  by (cases xs) auto

lemma dropWhile_snoc: "\<not> P x \<Longrightarrow> \<exists>zs. dropWhile P (ys @ [x]) = zs @ [x]"
  by (simp add: dropWhile_append)

lemma trim_ends:
  "trim s = [] \<or> (\<not> isspace (hd (trim s)) \<and> \<not> isspace (last (trim s)))"
proof (cases "dropWhile isspace s")
  case Nil
  show ?thesis unfolding trim_def Nil by simp
next
  case (Cons x xs)
  then have x: "\<not> isspace x" using hd_dropWhile[of isspace s] by simp
  from dropWhile_snoc[of isspace x "rev xs"] x obtain zs where
    zs: "dropWhile isspace (rev xs @ [x]) = zs @ [x]" by blast
  then have t: "trim s = x # rev zs" by (simp add: trim_def Cons)
  have "rev (trim s) = dropWhile isspace (rev (dropWhile isspace s))" by (simp add: trim_def)
  moreover have ne: "rev (trim s) \<noteq> []" using t by simp
  ultimately have "\<not> isspace (hd (rev (trim s)))" using hd_dropWhile[of isspace "rev (dropWhile isspace s)"]
    by simp
  moreover have "hd (rev (trim s)) = last (trim s)" using ne by (simp add: hd_rev)
  moreover have "hd (trim s) = x" using t by simp
  ultimately show ?thesis using x by simp
qed

lemma trim_fixed:
  assumes "u = [] \<or> (\<not> isspace (hd u) \<and> \<not> isspace (last u))"
  shows "trim u = u"
proof (cases "u = []")
  case True
  then show ?thesis by (simp add: trim_def)
next
  case False
  with assms have h: "\<not> isspace (hd u)" "\<not> isspace (last u)" by auto
  from False h(1) have 1: "dropWhile isspace u = u" by (rule dropWhile_keeps)
  from False h(2) have 2: "dropWhile isspace (rev u) = rev u"
    by (intro dropWhile_keeps) (simp_all add: hd_rev)
  show ?thesis by (simp add: trim_def 1 2)
qed

lemma trim_idem: "trim (trim s) = trim s"
  using trim_ends[of s] by (rule trim_fixed)

lemma clean_text_fixed: "backslash \<notin> set (clean_text x) \<Longrightarrow> clean_text (clean_text x) = clean_text x"
  by (simp add: clean_text_def unescape_no_backslash trim_idem)

lemma set_trim: "set (trim s) \<subseteq> set s"
proof -
  have "set (trim s) \<subseteq> set (dropWhile isspace s)"
    unfolding trim_def set_rev using set_dropWhileD by fastforce
  also have "\<dots> \<subseteq> set s" using set_dropWhileD by fastforce
  finally show ?thesis .
qed

text \<open>
  C4, as the code has it. \<open>clean_text\<close> is idempotent on every input whose cleaned text
  has no backslash, in particular on every input without a backslash, where cleaning is
  trimming. It is not idempotent on every input: four backslashes clean to two, and two
  clean to one.
\<close>

theorem clean_text_idempotent_without_backslash:
  "(backslash \<notin> set (clean_text x) \<longrightarrow> clean_text (clean_text x) = clean_text x) \<and>
   (backslash \<notin> set x \<longrightarrow> clean_text x = trim x \<and> clean_text (clean_text x) = clean_text x)"
proof (intro conjI impI)
  assume "backslash \<notin> set (clean_text x)"
  then show "clean_text (clean_text x) = clean_text x" by (rule clean_text_fixed)
next
  assume a: "backslash \<notin> set x"
  then show "clean_text x = trim x" by (simp add: clean_text_def unescape_no_backslash)
  with a set_trim[of x] have "backslash \<notin> set (clean_text x)" by auto
  then show "clean_text (clean_text x) = clean_text x" by (rule clean_text_fixed)
qed

theorem clean_text_idempotent_without_backslash_witness:
  "backslash \<notin> set (clean_text (''  a'' @ [backslash, CHR ''n''] @ ''b '')) \<and>
   clean_text (clean_text (''  a'' @ [backslash, CHR ''n''] @ ''b '')) =
     clean_text (''  a'' @ [backslash, CHR ''n''] @ ''b '') \<and>
   backslash \<notin> set '' Hello World '' \<and>
   clean_text '' Hello World '' = ''Hello World'' \<and>
   clean_text (clean_text '' Hello World '') = clean_text '' Hello World ''"
proof -
  have 1: "backslash \<notin> set (clean_text (''  a'' @ [backslash, CHR ''n''] @ ''b ''))"
    by (simp add: clean_text_def unescape_def trim_def isspace_def backslash_def LF_def TAB_def CR_def
        dquote_def squote_def)
  have 2: "backslash \<notin> set '' Hello World ''" by (simp add: backslash_def)
  have 3: "trim '' Hello World '' = ''Hello World''"
    by (simp add: trim_def isspace_def LF_def TAB_def CR_def)
  note inst1 = clean_text_idempotent_without_backslash[of "''  a'' @ [backslash, CHR ''n''] @ ''b ''",
      THEN conjunct1, rule_format, OF 1]
  note inst2 = clean_text_idempotent_without_backslash[of "'' Hello World ''",
      THEN conjunct2, rule_format, OF 2]
  from inst2 3 have 4: "clean_text '' Hello World '' = ''Hello World''" by (simp only:)
  from 1 2 inst1 inst2 4 show ?thesis by blast
qed

theorem clean_text_idempotent_counterexample:
  "clean_text (clean_text [backslash, backslash, backslash, backslash]) \<noteq>
   clean_text [backslash, backslash, backslash, backslash]"
  by (simp add: clean_text_def unescape_def trim_def isspace_def backslash_def LF_def TAB_def CR_def
        dquote_def squote_def)

text \<open>
  C3 at the input backslash, backslash, \<open>n\<close>. The substitutions run in the order of
  lines 328-333, the backslash step last, each on the result of the one before. The first
  step therefore reads the second backslash and the \<open>n\<close> as the escape of a newline,
  the last step finds a single backslash and leaves it, and the trimming removes the
  newline: the result is a single backslash, not a backslash followed by \<open>n\<close>.
\<close>

theorem clean_text_double_backslash_n:
  "unescape [backslash, backslash, CHR ''n''] = [backslash, LF] \<and>
   clean_text [backslash, backslash, CHR ''n''] = [backslash] \<and>
   clean_text [backslash, backslash, CHR ''n''] \<noteq> [backslash, CHR ''n'']"
  by (simp add: clean_text_def unescape_def trim_def isspace_def backslash_def LF_def TAB_def CR_def
        dquote_def squote_def)

section \<open>Properties of the translation store\<close>

lemma read_record_lines:
  "foldl read_line st (record_lines r) =
     st\<lparr>current_id := record_id r, current_original := original r,
        current_translation := translation r,
        translation_map := record_update (translation_map st) r\<rparr>"
  by (simp add: record_lines_def read_line_def starts_with_def record_update_def placeholder_def)

lemma read_records:
  "translation_map (foldl read_line st (concat (map record_lines rs))) =
     foldl record_update (translation_map st) rs"
  by (induction rs arbitrary: st) (simp_all add: read_record_lines)

lemma read_worksheet:
  "translation_map (foldl read_line initial_reader (worksheet rs)) = foldl record_update Map.empty rs"
proof -
  have "foldl read_line initial_reader [''=== MASTER TRANSLATION FILE ==='', []] = initial_reader"
    by (simp add: read_line_def starts_with_def)
  then show ?thesis
    by (simp add: worksheet_def read_records initial_reader_def)
qed

lemma read_file_lines_line:
  "LF \<notin> set l \<Longrightarrow> read_file_lines cur (l @ LF # rest) = (cur @ l) # read_file_lines [] rest"
  by (induction l arbitrary: cur) auto

lemma getlines_written:
  "\<forall>l\<in>set ls. LF \<notin> set l \<Longrightarrow> read_file_lines [] (concat (map (\<lambda>l. l @ [LF]) ls)) = ls"
proof (induction ls)
  case Nil
  then show ?case by simp
next
  case (Cons l ls)
  then have "LF \<notin> set l" by simp
  from read_file_lines_line[OF this, of "[]" "concat (map (\<lambda>l. l @ [LF]) ls)"] Cons
  show ?case by simp
qed

lemma record_lines_one_line:
  "well_formed_record r \<Longrightarrow> \<forall>l\<in>set (record_lines r). LF \<notin> set l"
  by (simp add: well_formed_record_def record_lines_def LF_def)

lemma getlines_worksheet_text:
  assumes "\<forall>r\<in>set rs. well_formed_record r"
  shows "getlines (worksheet_text rs) = worksheet rs"
proof -
  have "\<forall>l\<in>set (worksheet rs). LF \<notin> set l"
    using assms record_lines_one_line by (auto simp: worksheet_def LF_def)
  then show ?thesis unfolding getlines_def worksheet_text_def by (rule getlines_written)
qed

lemma record_updates_entry:
  "foldl record_update m rs k =
     (case translated_as rs k of None \<Rightarrow> m k | Some t \<Rightarrow> Some t)"
proof (induction rs rule: rev_induct)
  case Nil
  then show ?case by (simp add: translated_as_def)
next
  case (snoc r rs)
  then show ?case
    by (auto simp: translated_as_def record_update_def split: list.splits option.splits)
qed

lemma record_updates_map: "foldl record_update Map.empty rs = translated_as rs"
  by (rule ext) (simp add: record_updates_entry split: option.splits)

lemma dom_translated_as:
  "dom (translated_as rs) = original ` {r \<in> set rs. \<not> placeholder (translation r)}"
proof -
  have "translated_as rs k \<noteq> None \<longleftrightarrow>
        filter (\<lambda>r. original r = k \<and> \<not> placeholder (translation r)) rs \<noteq> []" for k
    by (simp add: translated_as_def split: list.splits)
  then have "k \<in> dom (translated_as rs) \<longleftrightarrow>
        k \<in> original ` {r \<in> set rs. \<not> placeholder (translation r)}" for k
    by (auto simp: dom_def filter_empty_conv)
  then show ?thesis by blast
qed

lemma card_translated:
  assumes "distinct (map original (filter (\<lambda>r. \<not> placeholder (translation r)) rs))"
  shows "card (original ` {r \<in> set rs. \<not> placeholder (translation r)}) =
         length (filter (\<lambda>r. \<not> placeholder (translation r)) rs)"
proof -
  let ?xs = "filter (\<lambda>r. \<not> placeholder (translation r)) rs"
  from assms have "card (set (map original ?xs)) = length (map original ?xs)"
    by (rule distinct_card)
  moreover have "set (map original ?xs) = original ` {r \<in> set rs. \<not> placeholder (translation r)}"
    by auto
  ultimately show ?thesis by simp
qed

lemma translated_as_distinct:
  assumes d: "distinct (map original (filter (\<lambda>r. \<not> placeholder (translation r)) rs))"
    and r: "r \<in> set rs" "\<not> placeholder (translation r)"
  shows "translated_as rs (original r) = Some (translation r)"
proof -
  let ?np = "\<lambda>r. \<not> placeholder (translation r)"
  let ?xs = "filter (\<lambda>x. original x = original r \<and> ?np x) rs"
  from d have inj: "inj_on original (set (filter ?np rs))" by (simp add: distinct_map)
  from r have ne: "?xs \<noteq> []" by (auto simp: filter_empty_conv)
  then have "last ?xs \<in> set ?xs" by (rule last_in_set)
  then have "last ?xs \<in> set (filter ?np rs)" "original (last ?xs) = original r" by auto
  moreover from r have "r \<in> set (filter ?np rs)" by simp
  ultimately have "last ?xs = r" using inj by (auto dest: inj_onD)
  with ne show ?thesis by (cases ?xs) (simp_all add: translated_as_def)
qed

text \<open>
  C2, as the code has it. For a worksheet of well-formed records, each field on one line,
  \<open>apply_translations\<close> builds a map with one entry for each \<open>Original\<close> value that
  some record has together with a translation that is not a placeholder; the entry holds
  the translation of the last such record. When these records have pairwise distinct
  \<open>Original\<close> values the map has exactly as many entries as there are such records, and
  each of them has its \<open>Original\<close> mapped to its \<open>Translation\<close>. No line is rejected: a
  \<open>Translation\<close> line with a value that is not a placeholder always stores that value
  under the \<open>Original\<close> value read last, and an \<open>ID\<close> line, which starts a record,
  does not reset that value.
\<close>

theorem reapply_worksheet:
  "(contents fs translation_file = Some (getlines (worksheet_text rs)) \<and>
    (\<forall>r\<in>set rs. well_formed_record r) \<longrightarrow>
      (\<exists>m. apply_translations fs translation_file output_dir = (Some m, []) \<and>
         m = translated_as rs \<and>
         card (dom m) = card (original ` {r \<in> set rs. \<not> placeholder (translation r)}) \<and>
         (distinct (map original (filter (\<lambda>r. \<not> placeholder (translation r)) rs)) \<longrightarrow>
            card (dom m) = length (filter (\<lambda>r. \<not> placeholder (translation r)) rs) \<and>
            (\<forall>r\<in>set rs. \<not> placeholder (translation r) \<longrightarrow>
               m (original r) = Some (translation r))))) \<and>
   (\<not> placeholder tr \<longrightarrow>
      translation_map (read_line st (''Translation: '' @ tr)) =
        (translation_map st)(current_original st \<mapsto> tr)) \<and>
   current_original (read_line st (''ID: '' @ n)) = current_original st"
proof (intro conjI impI)
  assume a: "contents fs translation_file = Some (getlines (worksheet_text rs)) \<and>
    (\<forall>r\<in>set rs. well_formed_record r)"
  then have "contents fs translation_file = Some (worksheet rs)"
    by (simp add: getlines_worksheet_text)
  then have 1: "apply_translations fs translation_file output_dir = (Some (translated_as rs), [])"
    by (simp add: apply_translations_def read_worksheet record_updates_map)
  have 2: "card (dom (translated_as rs)) =
      card (original ` {r \<in> set rs. \<not> placeholder (translation r)})"
    by (simp add: dom_translated_as)
  have 3: "distinct (map original (filter (\<lambda>r. \<not> placeholder (translation r)) rs)) \<longrightarrow>
            card (dom (translated_as rs)) = length (filter (\<lambda>r. \<not> placeholder (translation r)) rs) \<and>
            (\<forall>r\<in>set rs. \<not> placeholder (translation r) \<longrightarrow>
               translated_as rs (original r) = Some (translation r))"
    using card_translated[of rs] translated_as_distinct[of rs]
    by (simp add: dom_translated_as)
  from 1 2 3 show "\<exists>m. apply_translations fs translation_file output_dir = (Some m, []) \<and>
         m = translated_as rs \<and>
         card (dom m) = card (original ` {r \<in> set rs. \<not> placeholder (translation r)}) \<and>
         (distinct (map original (filter (\<lambda>r. \<not> placeholder (translation r)) rs)) \<longrightarrow>
            card (dom m) = length (filter (\<lambda>r. \<not> placeholder (translation r)) rs) \<and>
            (\<forall>r\<in>set rs. \<not> placeholder (translation r) \<longrightarrow>
               m (original r) = Some (translation r)))"
    by blast
next
  assume "\<not> placeholder tr"
  then show "translation_map (read_line st (''Translation: '' @ tr)) =
        (translation_map st)(current_original st \<mapsto> tr)"
    by (simp add: read_line_def starts_with_def placeholder_def)
next
  show "current_original (read_line st (''ID: '' @ n)) = current_original st"
    by (simp add: read_line_def starts_with_def)
qed

lemma sample_worksheet_ok:
  "contents (file_with (getlines (worksheet_text
       [sample_record ''1'' ''Hello'' ''Bonjour'', sample_record ''2'' ''World'' []]))) ''w'' =
     Some (getlines (worksheet_text
       [sample_record ''1'' ''Hello'' ''Bonjour'', sample_record ''2'' ''World'' []])) \<and>
   (\<forall>r\<in>set [sample_record ''1'' ''Hello'' ''Bonjour'', sample_record ''2'' ''World'' []].
      well_formed_record r)"
  by (simp add: file_with_def sample_record_def well_formed_record_def LF_def)

theorem reapply_worksheet_witness:
  "list_all well_formed_record [sample_record ''1'' ''Hello'' ''Bonjour'', sample_record ''2'' ''World'' []] \<and>
   distinct (map original (filter (\<lambda>r. \<not> placeholder (translation r))
      [sample_record ''1'' ''Hello'' ''Bonjour'', sample_record ''2'' ''World'' []])) \<and>
   (\<exists>m. apply_translations
          (file_with (getlines (worksheet_text
             [sample_record ''1'' ''Hello'' ''Bonjour'', sample_record ''2'' ''World'' []])))
          ''w'' ''out'' = (Some m, []) \<and>
        card (dom m) = 1 \<and> m ''Hello'' = Some ''Bonjour'' \<and> m ''World'' = None) \<and>
   \<not> placeholder ''Monde'' \<and>
   translation_map (read_line (initial_reader\<lparr>current_original := ''Hello''\<rparr>) (''Translation: '' @ ''Monde''))
     = [''Hello'' \<mapsto> ''Monde'']"
proof -
  let ?rs = "[sample_record ''1'' ''Hello'' ''Bonjour'', sample_record ''2'' ''World'' []]"
  note inst = reapply_worksheet[of "file_with (getlines (worksheet_text ?rs))" "''w''" ?rs "''out''"
      "''Monde''" "initial_reader\<lparr>current_original := ''Hello''\<rparr>" "[]"]
  have p: "\<not> placeholder ''Monde''" by (simp add: placeholder_def)
  have w: "list_all well_formed_record ?rs"
    by (simp add: sample_record_def well_formed_record_def LF_def)
  have d: "distinct (map original (filter (\<lambda>r. \<not> placeholder (translation r)) ?rs))"
    by (simp add: sample_record_def placeholder_def)
  from inst[THEN conjunct1, rule_format, OF sample_worksheet_ok] obtain m where
    m: "apply_translations (file_with (getlines (worksheet_text ?rs))) ''w'' ''out'' = (Some m, [])"
      "m = translated_as ?rs"
      "distinct (map original (filter (\<lambda>r. \<not> placeholder (translation r)) ?rs)) \<longrightarrow>
            card (dom m) = length (filter (\<lambda>r. \<not> placeholder (translation r)) ?rs) \<and>
            (\<forall>r\<in>set ?rs. \<not> placeholder (translation r) \<longrightarrow>
               m (original r) = Some (translation r))"
    by blast
  from m(3) d have "card (dom m) = 1" "m ''Hello'' = Some ''Bonjour''"
    by (simp_all add: sample_record_def placeholder_def)
  moreover from m(2) have "m ''World'' = None"
    by (simp add: translated_as_def sample_record_def placeholder_def)
  ultimately have 1: "\<exists>m. apply_translations (file_with (getlines (worksheet_text ?rs))) ''w'' ''out''
        = (Some m, []) \<and> card (dom m) = 1 \<and> m ''Hello'' = Some ''Bonjour'' \<and> m ''World'' = None"
    using m(1) by blast
  from inst[THEN conjunct2, THEN conjunct1, rule_format, OF p]
  have 2: "translation_map (read_line (initial_reader\<lparr>current_original := ''Hello''\<rparr>)
              (''Translation: '' @ ''Monde'')) = [''Hello'' \<mapsto> ''Monde'']"
    by (simp add: initial_reader_def)
  from w d 1 p 2 show ?thesis by blast
qed

theorem reapply_counterexample:
  "list_all well_formed_record
      [sample_record ''1'' ''Hello World'' ''Bonjour'', sample_record ''2'' ''Hello World'' ''Salut''] \<and>
   length (filter (\<lambda>r. \<not> placeholder (translation r))
      [sample_record ''1'' ''Hello World'' ''Bonjour'', sample_record ''2'' ''Hello World'' ''Salut'']) = 2 \<and>
   apply_translations
     (file_with (getlines (worksheet_text [sample_record ''1'' ''Hello World'' ''Bonjour'',
                            sample_record ''2'' ''Hello World'' ''Salut''])))
     ''w'' ''out'' = (Some [''Hello World'' \<mapsto> ''Salut''], []) \<and>
   card (dom [''Hello World'' \<mapsto> ''Salut'']) = 1 \<and>
   apply_translations
     (file_with (record_lines (sample_record ''1'' ''Hello'' ''Bonjour'') @
                 [''ID: 2'', ''File: a.txt'', ''Line: 2'', ''Translation: Monde'', ''---'', []]))
     ''w'' ''out'' = (Some [''Hello'' \<mapsto> ''Monde''], [])"
proof -
  let ?rs = "[sample_record ''1'' ''Hello World'' ''Bonjour'', sample_record ''2'' ''Hello World'' ''Salut'']"
  have w: "list_all well_formed_record ?rs"
    by (simp add: sample_record_def well_formed_record_def LF_def)
  then have g: "getlines (worksheet_text ?rs) = worksheet ?rs"
    by (intro getlines_worksheet_text) (simp add: list_all_iff)
  have 1: "length (filter (\<lambda>r. \<not> placeholder (translation r)) ?rs) = 2"
    by (simp add: sample_record_def placeholder_def)
  have 2: "apply_translations (file_with (getlines (worksheet_text ?rs))) ''w'' ''out''
      = (Some [''Hello World'' \<mapsto> ''Salut''], [])"
    unfolding g
    by (simp add: apply_translations_def file_with_def worksheet_def record_lines_def
      sample_record_def placeholder_def read_line_def starts_with_def initial_reader_def)
  have 3: "card (dom [''Hello World'' \<mapsto> ''Salut'']) = 1" by simp
  have 4: "apply_translations
     (file_with (record_lines (sample_record ''1'' ''Hello'' ''Bonjour'') @
                 [''ID: 2'', ''File: a.txt'', ''Line: 2'', ''Translation: Monde'', ''---'', []]))
     ''w'' ''out'' = (Some [''Hello'' \<mapsto> ''Monde''], [])"
    by (simp add: apply_translations_def file_with_def worksheet_def record_lines_def
      sample_record_def placeholder_def read_line_def starts_with_def initial_reader_def)
  from w 1 2 3 4 show ?thesis by blast
qed

section \<open>Properties of the extraction engine and the aggregator\<close>

lemma hello_line_chunks:
  "line_chunks default_extractor path n hello_line =
     [hello_chunk path n ([dquote] @ ''Hello World'' @ [dquote]), hello_chunk path n hello_line]"
  by code_simp

lemma hello_quoted_rule:
  "pattern_chunks default_extractor path n hello_line (quoted_rule dquote) =
     [hello_chunk path n ([dquote] @ ''Hello World'' @ [dquote])]"
  by code_simp

lemma hello_name_rule:
  "pattern_chunks default_extractor path n hello_line (key_rule ''name'') =
     [hello_chunk path n hello_line]"
  by code_simp

lemma sample_scan:
  "scan_directory default_extractor sample_fs ''dir'' = ([''dir/a.txt'', ''dir/b.txt''], [])"
  by code_simp

lemma match_chunk_fields:
  "c \<in> set (match_chunk this path n line m) \<Longrightarrow>
   line_number c = n \<and> column_start c \<le> column_end c \<and>
   min_text_length this \<le> length (chunk_text c)"
  by (auto simp: match_chunk_def Let_def split: if_splits)

lemma line_chunks_fields:
  "c \<in> set (line_chunks this path n line) \<Longrightarrow>
   line_number c = n \<and> column_start c \<le> column_end c \<and>
   min_text_length this \<le> length (chunk_text c)"
  by (auto simp: line_chunks_def pattern_chunks_def dest: match_chunk_fields)

lemma read_lines_fields:
  "c \<in> set (read_lines this path n file_lines) \<Longrightarrow>
   n < line_number c \<and> column_start c \<le> column_end c \<and>
   min_text_length this \<le> length (chunk_text c)"
proof (induction file_lines arbitrary: n)
  case Nil
  then show ?case by simp
next
  case (Cons line rest)
  from Cons.prems consider "c \<in> set (line_chunks this path (n + 1) line)"
    | "c \<in> set (read_lines this path (n + 1) rest)" by auto
  then show ?case
  proof cases
    case 1
    from line_chunks_fields[OF 1] show ?thesis by simp
  next
    case 2
    from Cons.IH[OF 2] show ?thesis by simp
  qed
qed

lemma extract_from_file_fields:
  "c \<in> set (fst (extract_from_file this fs path)) \<Longrightarrow>
   1 \<le> line_number c \<and> column_start c \<le> column_end c \<and>
   min_text_length this \<le> length (chunk_text c)"
  by (auto simp: extract_from_file_def split: option.splits dest: read_lines_fields)

lemma extract_files_sources:
  "c \<in> set (fst (extract_files this fs files acc)) \<Longrightarrow>
   c \<in> set (fst acc) \<or> (\<exists>path\<in>set files. c \<in> set (fst (extract_from_file this fs path)))"
  by (induction files arbitrary: acc) fastforce+

lemma split_chunks_fields:
  assumes "split_chunks m cs [] = Some out" "f \<in> set out"
  shows "\<exists>c\<in>set cs. line_number f = line_number c \<and> column_start f = column_start c \<and>
           column_end f = column_end c"
proof -
  from pieces_of_output[OF assms] obtain c frs where
    c: "c \<in> set cs" "chunk_pieces m c frs" "f \<in> set frs" by blast
  show ?thesis
  proof (cases "length (chunk_text c) \<le> m")
    case True
    with c show ?thesis by (auto simp: chunk_pieces_def)
  next
    case False
    with c(2,3) obtain cuts where "f \<in> set (numbered_fragments c (chunk_text c) 0 cuts)"
      by (auto simp: chunk_pieces_def)
    from numbered_fragments_fields[OF this] c(1) show ?thesis by auto
  qed
qed

lemma sample_extract_texts:
  "extract_texts default_extractor sample_fs ''dir'' =
     Some (\<lparr>chunks = [hello_chunk ''dir/b.txt'' 1 ([dquote] @ ''Hello World'' @ [dquote]),
                       hello_chunk ''dir/b.txt'' 1 hello_line],
            total_files_processed = 2, total_texts_found = 2\<rparr>, [])"
proof -
  have a: "extract_from_file default_extractor sample_fs ''dir/a.txt'' = ([], [])"
    by (simp add: extract_from_file_def sample_fs_def)
  have b: "extract_from_file default_extractor sample_fs ''dir/b.txt'' =
      ([hello_chunk ''dir/b.txt'' 1 ([dquote] @ ''Hello World'' @ [dquote]),
        hello_chunk ''dir/b.txt'' 1 hello_line], [])"
    by (simp add: extract_from_file_def sample_fs_def hello_line_chunks)
  have m: "max_chunk_size default_extractor = 50000" by (simp add: default_extractor_def)
  show ?thesis
    by (simp add: extract_texts_def sample_scan a b split_into_chunks_def m hello_chunk_def)
qed


text \<open>
  C9. Every chunk that \<open>extract_from_file\<close> creates has a line number of at least 1, a
  column start that is at most its column end, and a cleaned text of at least
  \<open>min_text_length\<close> characters. Every chunk of the result of \<open>extract_texts\<close>, that
  is after the split stage, has a line number of at least 1, a column start that is at
  most its column end, and a text of at most \<open>max_chunk_size\<close> characters. With
  \<open>max_chunk_size\<close> at least 1 (the default is 50000) \<open>extract_texts\<close> returns.
\<close>

theorem chunk_invariants:
  "(\<forall>c\<in>set (fst (extract_from_file this fs path)).
      1 \<le> line_number c \<and> column_start c \<le> column_end c \<and>
      min_text_length this \<le> length (chunk_text c)) \<and>
   (\<forall>r. extract_texts this fs directory_path = Some r \<longrightarrow>
      (\<forall>c\<in>set (chunks (fst r)).
         1 \<le> line_number c \<and> column_start c \<le> column_end c \<and>
         length (chunk_text c) \<le> max_chunk_size this)) \<and>
   (1 \<le> max_chunk_size this \<longrightarrow> (\<exists>r. extract_texts this fs directory_path = Some r))"
proof (intro conjI allI impI ballI)
  fix c
  assume "c \<in> set (fst (extract_from_file this fs path))"
  from extract_from_file_fields[OF this]
  show "1 \<le> line_number c" "column_start c \<le> column_end c"
    "min_text_length this \<le> length (chunk_text c)" by simp_all
next
  fix r f
  assume r: "extract_texts this fs directory_path = Some r" and f: "f \<in> set (chunks (fst r))"
  let ?files = "fst (scan_directory this fs directory_path)"
  let ?ex = "extract_files this fs ?files ([], snd (scan_directory this fs directory_path))"
  from r have out: "split_chunks (max_chunk_size this) (fst ?ex) [] = Some (chunks (fst r))"
    by (auto simp: extract_texts_def Let_def split_into_chunks_def split: option.splits)
  from split_chunks_fields[OF out f] obtain c where
    c: "c \<in> set (fst ?ex)" "line_number f = line_number c" "column_start f = column_start c"
      "column_end f = column_end c" by blast
  from extract_files_sources[OF c(1)] obtain path where
    "c \<in> set (fst (extract_from_file this fs path))" by auto
  from extract_from_file_fields[OF this] c
  show "1 \<le> line_number f" "column_start f \<le> column_end f" by simp_all
  from pieces_of_output[OF out f] pieces_bound
  show "length (chunk_text f) \<le> max_chunk_size this" by blast
next
  assume "1 \<le> max_chunk_size this"
  from split_chunks_terminates[OF this]
  show "\<exists>r. extract_texts this fs directory_path = Some r"
    by (simp add: extract_texts_def Let_def split_into_chunks_def split: option.splits)
qed

theorem chunk_invariants_witness:
  "extract_texts default_extractor sample_fs ''dir'' =
     Some (\<lparr>chunks = [hello_chunk ''dir/b.txt'' 1 ([dquote] @ ''Hello World'' @ [dquote]),
                       hello_chunk ''dir/b.txt'' 1 hello_line],
            total_files_processed = 2, total_texts_found = 2\<rparr>, []) \<and>
   list_all (\<lambda>c. 1 \<le> line_number c \<and> column_start c \<le> column_end c \<and>
                 length (chunk_text c) \<le> max_chunk_size default_extractor)
     [hello_chunk ''dir/b.txt'' 1 ([dquote] @ ''Hello World'' @ [dquote]),
      hello_chunk ''dir/b.txt'' 1 hello_line] \<and>
   fst (extract_from_file default_extractor sample_fs ''dir/b.txt'') =
     [hello_chunk ''dir/b.txt'' 1 ([dquote] @ ''Hello World'' @ [dquote]),
      hello_chunk ''dir/b.txt'' 1 hello_line] \<and>
   list_all (\<lambda>c. 1 \<le> line_number c \<and> column_start c \<le> column_end c \<and>
                 min_text_length default_extractor \<le> length (chunk_text c))
     [hello_chunk ''dir/b.txt'' 1 ([dquote] @ ''Hello World'' @ [dquote]),
      hello_chunk ''dir/b.txt'' 1 hello_line]"
proof -
  note inst = chunk_invariants[of default_extractor sample_fs "''dir/b.txt''" "''dir''"]
  have b: "fst (extract_from_file default_extractor sample_fs ''dir/b.txt'') =
      [hello_chunk ''dir/b.txt'' 1 ([dquote] @ ''Hello World'' @ [dquote]),
       hello_chunk ''dir/b.txt'' 1 hello_line]"
    by (simp add: extract_from_file_def sample_fs_def hello_line_chunks)
  from inst[THEN conjunct1] have 1:
    "list_all (\<lambda>c. 1 \<le> line_number c \<and> column_start c \<le> column_end c \<and>
                 min_text_length default_extractor \<le> length (chunk_text c))
     [hello_chunk ''dir/b.txt'' 1 ([dquote] @ ''Hello World'' @ [dquote]),
      hello_chunk ''dir/b.txt'' 1 hello_line]"
    unfolding b by (simp only: list_all_iff)
  from inst[THEN conjunct2, THEN conjunct1, rule_format, OF sample_extract_texts]
  have 2: "list_all (\<lambda>c. 1 \<le> line_number c \<and> column_start c \<le> column_end c \<and>
                 length (chunk_text c) \<le> max_chunk_size default_extractor)
     [hello_chunk ''dir/b.txt'' 1 ([dquote] @ ''Hello World'' @ [dquote]),
      hello_chunk ''dir/b.txt'' 1 hello_line]"
    by (simp add: list_all_iff)
  from sample_extract_texts 1 2 b show ?thesis by blast
qed


lemma hello_line_chunks_22_to_39:
  "line_chunks (default_extractor\<lparr>text_patterns := rules_22_to_39\<rparr>) path n hello_line =
     [hello_chunk path n hello_line]"
  by code_simp

text \<open>
  C7 on a file whose only line is \<open>name: "Hello World"\<close>. With the rules that are
  well-formed as written (lines 22-39), the line yields one chunk, from the \<open>name\<close> key
  rule, whose \<open>original_text\<close> is the whole line. The second chunk, whose
  \<open>original_text\<close> is the quoted literal, comes from the rule for double-quoted literals,
  and the registry has that rule only as line 21 intends it, not as the line is written:
  with the intended rule in front of the others the line yields both chunks, with
  different \<open>original_text\<close> values.
\<close>

theorem scenario_A_line_21:
  "fst (extract_from_file (default_extractor\<lparr>text_patterns := rules_22_to_39\<rparr>)
         (file_with [hello_line]) ''w'') = [hello_chunk ''w'' 1 hello_line] \<and>
   text_patterns default_extractor = quoted_rule dquote # rules_22_to_39 \<and>
   fst (extract_from_file default_extractor (file_with [hello_line]) ''w'') =
     [hello_chunk ''w'' 1 ([dquote] @ ''Hello World'' @ [dquote]), hello_chunk ''w'' 1 hello_line] \<and>
   pattern_chunks default_extractor ''w'' 1 hello_line (quoted_rule dquote) =
     [hello_chunk ''w'' 1 ([dquote] @ ''Hello World'' @ [dquote])] \<and>
   pattern_chunks default_extractor ''w'' 1 hello_line (key_rule ''name'') =
     [hello_chunk ''w'' 1 hello_line] \<and>
   chunk_text (hello_chunk ''w'' 1 hello_line) = ''Hello World'' \<and>
   original_text (hello_chunk ''w'' 1 ([dquote] @ ''Hello World'' @ [dquote])) \<noteq>
     original_text (hello_chunk ''w'' 1 hello_line)"
proof -
  have 0: "fst (extract_from_file (default_extractor\<lparr>text_patterns := rules_22_to_39\<rparr>)
         (file_with [hello_line]) ''w'') = [hello_chunk ''w'' 1 hello_line]"
    by (simp add: extract_from_file_def file_with_def hello_line_chunks_22_to_39)
  have 1: "fst (extract_from_file default_extractor (file_with [hello_line]) ''w'') =
     [hello_chunk ''w'' 1 ([dquote] @ ''Hello World'' @ [dquote]), hello_chunk ''w'' 1 hello_line]"
    by (simp add: extract_from_file_def file_with_def hello_line_chunks)
  have 2: "text_patterns default_extractor = quoted_rule dquote # rules_22_to_39"
    by (simp add: default_extractor_def default_text_patterns_def)
  have 3: "chunk_text (hello_chunk ''w'' 1 hello_line) = ''Hello World''"
    "original_text (hello_chunk ''w'' 1 ([dquote] @ ''Hello World'' @ [dquote])) \<noteq>
       original_text (hello_chunk ''w'' 1 hello_line)"
    by (simp_all add: hello_chunk_def hello_line_def)
  from 0 1 2 3 hello_quoted_rule[of "''w''" 1] hello_name_rule[of "''w''" 1] show ?thesis
    by blast
qed

text \<open>
  C8 on a directory with the files \<open>dir/a.txt\<close>, which cannot be opened, and
  \<open>dir/b.txt\<close>. The file that cannot be opened is counted in
  \<open>total_files_processed\<close>, contributes no chunk, and does not stop the extraction from
  \<open>dir/b.txt\<close>; but \<open>extract_from_file\<close> writes nothing about it to
  \<open>std::cerr\<close>, and neither does \<open>extract_texts\<close>. (\<open>apply_translations\<close>, on a
  file it cannot open, does write a message.)
\<close>

theorem unopenable_file_silent:
  "contents sample_fs ''dir/a.txt'' = None \<and>
   extract_from_file default_extractor sample_fs ''dir/a.txt'' = ([], []) \<and>
   extract_texts default_extractor sample_fs ''dir'' =
     Some (\<lparr>chunks = [hello_chunk ''dir/b.txt'' 1 ([dquote] @ ''Hello World'' @ [dquote]),
                       hello_chunk ''dir/b.txt'' 1 hello_line],
            total_files_processed = 2, total_texts_found = 2\<rparr>, []) \<and>
   snd (apply_translations sample_fs ''dir/a.txt'' ''out'') =
     [''Could not open translation file: dir/a.txt'']"
proof -
  have a: "contents sample_fs ''dir/a.txt'' = None" by (simp add: sample_fs_def)
  then have b: "extract_from_file default_extractor sample_fs ''dir/a.txt'' = ([], [])"
    by (simp add: extract_from_file_def)
  from a have c: "snd (apply_translations sample_fs ''dir/a.txt'' ''out'') =
     [''Could not open translation file: dir/a.txt'']"
    by (simp add: apply_translations_def)
  from a b c sample_extract_texts show ?thesis by blast
qed

end
